theory Spec2Isabelle
  imports Complex_Main "HOL-Library.Log_Nat" "HOL-Library.Sublist"
begin

section \<open>JavaScript numbers\<close>

text \<open>
  A TypeScript \<^verbatim>\<open>number\<close> is an IEEE 754 binary64 value. \<open>Num q\<close> is the finite
  double whose exact value is the rational \<open>q\<close> (\<open>Num 0\<close> is \<open>+0\<close>), \<open>NegZero\<close> is
  \<open>-0\<close>. Arithmetic computes the exact rational result and rounds it with \<open>fl\<close>
  (round to nearest, ties to even, 53 significant bits, exponents from \<open>-1074\<close> to
  \<open>971\<close>), as the language requires of \<^verbatim>\<open>+ - * /\<close>. The numbers a program can hold
  are those that \<open>fl\<close> leaves unchanged; what is proved below holds for every rational
  \<open>q\<close> in \<open>Num q\<close>.
\<close>

datatype number = NaN | PosInf | NegInf | NegZero | Num rat

definition ilog :: "nat \<Rightarrow> rat \<Rightarrow> int" where
  \<comment> \<open>for \<open>0 < q\<close> and \<open>1 < b\<close>: the integer \<open>t\<close> with \<open>b ^ t \<le> q < b ^ (t + 1)\<close>\<close>
  "ilog b q =
     (let t = int (floorlog b (nat (fst (quotient_of q)))) - int (floorlog b (nat (snd (quotient_of q))))
      in if of_nat b powi t \<le> q then t else t - 1)"

definition roundHalfEven :: "rat \<Rightarrow> int" where
  "roundHalfEven q =
     (let f = \<lfloor>q\<rfloor>; d = q - of_int f
      in if d < 1 / 2 then f else if 1 / 2 < d then f + 1 else if even f then f else f + 1)"

definition fl :: "rat \<Rightarrow> number" where
  \<comment> \<open>\<open>e\<close> is the exponent of the last of the 53 bits of \<open>\<bar>q\<bar>\<close>, not below that of the
      subnormal numbers; \<open>m\<close> is \<open>\<bar>q\<bar>\<close> in units of \<open>2 ^ e\<close>, rounded; a result of
      \<open>2 ^ 1024\<close> or more overflows, and a result of zero keeps the sign of \<open>q\<close>\<close>
  "fl q =
     (if q = 0 then Num 0
      else
        let e = max (ilog 2 \<bar>q\<bar> - 52) (- 1074);
            m = roundHalfEven (\<bar>q\<bar> / 2 powi e);
            r = of_int m * 2 powi e
        in if 2 powi 1024 \<le> r then (if q < 0 then NegInf else PosInf)
           else if m = 0 then (if q < 0 then NegZero else Num 0)
           else Num (if q < 0 then - r else r))"

fun isNegative :: "number \<Rightarrow> bool" where
  "isNegative NaN = False"
| "isNegative PosInf = False"
| "isNegative NegInf = True"
| "isNegative NegZero = True"
| "isNegative (Num q) = (q < 0)"

fun isZero :: "number \<Rightarrow> bool" where
  "isZero NegZero = True"
| "isZero (Num q) = (q = 0)"
| "isZero _ = False"

fun isInfinite :: "number \<Rightarrow> bool" where
  "isInfinite PosInf = True"
| "isInfinite NegInf = True"
| "isInfinite _ = False"

fun valueOf :: "number \<Rightarrow> rat" where
  \<comment> \<open>the exact value of a finite number\<close>
  "valueOf (Num q) = q"
| "valueOf _ = 0"

definition signedZero :: "bool \<Rightarrow> number" where
  "signedZero neg = (if neg then NegZero else Num 0)"

definition signedInf :: "bool \<Rightarrow> number" where
  "signedInf neg = (if neg then NegInf else PosInf)"

fun neg :: "number \<Rightarrow> number" where
  "neg NaN = NaN"
| "neg PosInf = NegInf"
| "neg NegInf = PosInf"
| "neg NegZero = Num 0"
| "neg (Num q) = (if q = 0 then NegZero else Num (- q))"

fun add :: "number \<Rightarrow> number \<Rightarrow> number" where
  "add NaN y = NaN"
| "add x NaN = NaN"
| "add PosInf NegInf = NaN"
| "add NegInf PosInf = NaN"
| "add PosInf y = PosInf"
| "add NegInf y = NegInf"
| "add x PosInf = PosInf"
| "add x NegInf = NegInf"
| "add NegZero y = y"
| "add x NegZero = x"
| "add (Num a) (Num b) = fl (a + b)"

definition sub :: "number \<Rightarrow> number \<Rightarrow> number" where
  "sub x y = add x (neg y)"

definition mul :: "number \<Rightarrow> number \<Rightarrow> number" where
  "mul x y =
     (if x = NaN \<or> y = NaN then NaN
      else if (isInfinite x \<and> isZero y) \<or> (isZero x \<and> isInfinite y) then NaN
      else if isInfinite x \<or> isInfinite y then signedInf (isNegative x \<noteq> isNegative y)
      else if isZero x \<or> isZero y then signedZero (isNegative x \<noteq> isNegative y)
      else fl (valueOf x * valueOf y))"

definition divide :: "number \<Rightarrow> number \<Rightarrow> number" where
  "divide x y =
     (if x = NaN \<or> y = NaN then NaN
      else if (isInfinite x \<and> isInfinite y) \<or> (isZero x \<and> isZero y) then NaN
      else if isInfinite x \<or> isZero y then signedInf (isNegative x \<noteq> isNegative y)
      else if isInfinite y \<or> isZero x then signedZero (isNegative x \<noteq> isNegative y)
      else fl (valueOf x / valueOf y))"

fun lt :: "number \<Rightarrow> number \<Rightarrow> bool" where
  "lt NaN y = False"
| "lt x NaN = False"
| "lt PosInf y = False"
| "lt x PosInf = True"
| "lt x NegInf = False"
| "lt NegInf y = True"
| "lt x y = (valueOf x < valueOf y)"

definition gt :: "number \<Rightarrow> number \<Rightarrow> bool" where
  "gt x y = lt y x"

definition le :: "number \<Rightarrow> number \<Rightarrow> bool" where
  "le x y = (x \<noteq> NaN \<and> y \<noteq> NaN \<and> \<not> lt y x)"

definition ge :: "number \<Rightarrow> number \<Rightarrow> bool" where
  "ge x y = le y x"

definition strictEquals :: "number \<Rightarrow> number \<Rightarrow> bool" where
  \<comment> \<open>\<^verbatim>\<open>===\<close> on numbers: \<open>NaN\<close> equals nothing, \<open>+0\<close> equals \<open>-0\<close>\<close>
  "strictEquals x y = (x \<noteq> NaN \<and> y \<noteq> NaN \<and> (x = y \<or> (isZero x \<and> isZero y)))"

definition toBoolean :: "number \<Rightarrow> bool" where
  \<comment> \<open>a number is falsy when it is \<open>+0\<close>, \<open>-0\<close> or \<open>NaN\<close>\<close>
  "toBoolean x = (x \<noteq> NaN \<and> \<not> isZero x)"

definition Math_min :: "number \<Rightarrow> number \<Rightarrow> number" where
  "Math_min x y =
     (if x = NaN \<or> y = NaN then NaN
      else if lt x y then x
      else if lt y x then y
      else if x = NegZero \<or> y = NegZero then NegZero
      else x)"

fun Math_round :: "number \<Rightarrow> number" where
  \<comment> \<open>the nearest integer, a tie going up; a result of zero keeps the sign of the argument\<close>
  "Math_round (Num q) =
     (let r = \<lfloor>q + 1 / 2\<rfloor> in if r = 0 then signedZero (q < 0) else Num (of_int r))"
| "Math_round x = x"

subsection \<open>Numbers as strings\<close>

definition digitChar :: "nat \<Rightarrow> char" where
  "digitChar d = ''0123456789'' ! d"

fun digitsOfNat :: "nat \<Rightarrow> string" where
  "digitsOfNat n = (if n < 10 then [digitChar n] else digitsOfNat (n div 10) @ [digitChar (n mod 10)])"

declare digitsOfNat.simps [simp del]

text \<open>
  \<^verbatim>\<open>Number::toString\<close> writes a positive finite \<open>x\<close> with the least number \<open>k\<close> of
  significant digits \<open>s\<close> and the exponent \<open>n\<close> such that \<open>s * 10 ^ (n - k)\<close> rounds back
  to \<open>x\<close>; of two such \<open>s\<close> the one nearer to \<open>x\<close>. Only the neighbours of
  \<open>x / 10 ^ (n - k)\<close> can round back to \<open>x\<close>, and 17 digits always do.
\<close>

definition roundTrips :: "rat \<Rightarrow> nat \<Rightarrow> nat \<times> int \<Rightarrow> bool" where
  "roundTrips x k c = (fl (of_nat (fst c) * 10 powi (snd c - int k)) = Num x)"

definition decimalError :: "rat \<Rightarrow> nat \<Rightarrow> nat \<times> int \<Rightarrow> rat" where
  "decimalError x k c = \<bar>of_nat (fst c) * 10 powi (snd c - int k) - x\<bar>"

definition lowerDigits :: "rat \<Rightarrow> nat \<Rightarrow> nat \<times> int" where
  "lowerDigits x k = (nat \<lfloor>x / 10 powi (ilog 10 x + 1 - int k)\<rfloor>, ilog 10 x + 1)"

definition upperDigits :: "rat \<Rightarrow> nat \<Rightarrow> nat \<times> int" where
  "upperDigits x k =
     (let lo = lowerDigits x k
      in if fst lo + 1 < 10 ^ k then (fst lo + 1, snd lo) else (10 ^ (k - 1), snd lo + 1))"

definition digitsAt :: "rat \<Rightarrow> nat \<Rightarrow> (nat \<times> int) option" where
  "digitsAt x k =
     (let lo = lowerDigits x k; hi = upperDigits x k
      in if roundTrips x k lo \<and> roundTrips x k hi then
           Some (if decimalError x k lo < decimalError x k hi then lo
                 else if decimalError x k hi < decimalError x k lo then hi
                 else if even (fst lo) then lo else hi)
         else if roundTrips x k lo then Some lo
         else if roundTrips x k hi then Some hi
         else None)"

function shortestDigits :: "rat \<Rightarrow> nat \<Rightarrow> nat \<times> int \<times> nat" where
  "shortestDigits x k =
     (case digitsAt x k of
        Some c \<Rightarrow> (fst c, snd c, k)
      | None \<Rightarrow> if k < 17 then shortestDigits x (Suc k) else (fst (lowerDigits x k), snd (lowerDigits x k), k))"
  by pat_completeness auto
termination
  by (relation "measure (\<lambda>(x, k). 17 - k)") auto

declare shortestDigits.simps [simp del]

definition positiveToString :: "rat \<Rightarrow> string" where
  "positiveToString x =
     (case shortestDigits x 1 of (s, n, k) \<Rightarrow>
        let ds = digitsOfNat s
        in if - 5 \<le> n \<and> n \<le> 21 then
             (if int k \<le> n then ds @ replicate (nat (n - int k)) CHR ''0''
              else if 0 < n then take (nat n) ds @ ''.'' @ drop (nat n) ds
              else ''0.'' @ replicate (nat (- n)) CHR ''0'' @ ds)
           else
             (let es = (if 0 \<le> n - 1 then ''+'' else ''-'') @ digitsOfNat (nat \<bar>n - 1\<bar>)
              in if k = 1 then ds @ ''e'' @ es
                 else take 1 ds @ ''.'' @ drop 1 ds @ ''e'' @ es))"

fun numberToString :: "number \<Rightarrow> string" where
  "numberToString NaN = ''NaN''"
| "numberToString PosInf = ''Infinity''"
| "numberToString NegInf = ''-Infinity''"
| "numberToString NegZero = ''0''"
| "numberToString (Num q) =
     (if q = 0 then ''0'' else if q < 0 then ''-'' @ positiveToString (- q) else positiveToString q)"

fun toFixed0 :: "number \<Rightarrow> string" where
  \<comment> \<open>\<^verbatim>\<open>x.toFixed(0)\<close>: the nearest integer, a tie going away from zero\<close>
  "toFixed0 (Num q) =
     (if 10 ^ 21 \<le> \<bar>q\<bar> then numberToString (Num q)
      else (if q < 0 then ''-'' else []) @ digitsOfNat (nat \<lfloor>\<bar>q\<bar> + 1 / 2\<rfloor>))"
| "toFixed0 NegZero = ''0''"
| "toFixed0 x = numberToString x"

subsection \<open>Strings and arrays\<close>

fun str_includes :: "string \<Rightarrow> string \<Rightarrow> bool" where
  \<comment> \<open>\<^verbatim>\<open>s.includes(t)\<close>: \<open>t\<close> occurs at some position of \<open>s\<close>\<close>
  "str_includes [] t = (t = [])"
| "str_includes (c # cs) t = (prefix t (c # cs) \<or> str_includes cs t)"

fun occurrences :: "string \<Rightarrow> string \<Rightarrow> nat" where
  \<comment> \<open>the number of positions of \<open>s\<close> at which \<open>t\<close> occurs\<close>
  "occurrences [] t = (if t = [] then 1 else 0)"
| "occurrences (c # cs) t = (if prefix t (c # cs) then 1 else 0) + occurrences cs t"

definition occurrencesIn :: "string \<Rightarrow> string option \<Rightarrow> nat" where
  \<comment> \<open>the occurrences of \<open>p\<close> in an entry of the array of clauses\<close>
  "occurrencesIn p c = (case c of None \<Rightarrow> 0 | Some s \<Rightarrow> occurrences s p)"

fun join :: "string \<Rightarrow> string list \<Rightarrow> string" where
  "join sep [] = []"
| "join sep [x] = x"
| "join sep (x # y # ys) = x @ sep @ join sep (y # ys)"

definition arrayLength :: "number \<Rightarrow> nat option" where
  \<comment> \<open>\<^verbatim>\<open>new Array(len)\<close> takes an integer from 0 to \<open>2^32 - 1\<close> and throws a
      \<^verbatim>\<open>RangeError\<close> on any other number\<close>
  "arrayLength len =
     (case len of
        NegZero \<Rightarrow> Some 0
      | Num q \<Rightarrow> if of_int \<lfloor>q\<rfloor> = q \<and> 0 \<le> q \<and> q < 2 ^ 32 then Some (nat \<lfloor>q\<rfloor>) else None
      | _ \<Rightarrow> None)"

section \<open>The audio filter builder\<close>

text \<open>
  \<^verbatim>\<open>calculateATempo\<close>, \<^verbatim>\<open>ffmpegVolumeExpression\<close> and \<^verbatim>\<open>DEFAULT_SAMPLE_RATE\<close> are
  imported from the modules \<^verbatim>\<open>./assets/calculate-atempo\<close>,
  \<^verbatim>\<open>./assets/ffmpeg-volume-expression\<close> and \<^verbatim>\<open>./sample-rate\<close>; the builder takes them as
  the fields of the record \<open>deps\<close>. The volume descriptor (\<^verbatim>\<open>AssetVolume\<close>) is only
  handed on to \<^verbatim>\<open>ffmpegVolumeExpression\<close> and stays a type variable.
\<close>

record volumeFilter =
  value_str :: string
  eval_str :: string

record 'v deps =
  calculateATempo :: "number \<Rightarrow> string option"
  ffmpegVolumeExpression :: "'v \<Rightarrow> number \<Rightarrow> number \<Rightarrow> bool \<Rightarrow> volumeFilter"
    \<comment> \<open>the arguments are \<^verbatim>\<open>volume\<close>, \<^verbatim>\<open>fps\<close>, \<^verbatim>\<open>trimLeft\<close> and
        \<^verbatim>\<open>allowAmplificationDuringRender\<close>\<close>
  DEFAULT_SAMPLE_RATE :: number

datatype error =
  ToneFrequencyError \<comment> \<open>\<^verbatim>\<open>toneFrequency must be a positive number between 0.01 and 2\<close>\<close>
| ShouldNeverHappen \<comment> \<open>\<^verbatim>\<open>This should never happen\<close>\<close>
| RangeError \<comment> \<open>\<^verbatim>\<open>new Array\<close> with an invalid length\<close>

record ProcessedTrack =
  pad_start :: "string option"
  pad_end :: "string option"

record FilterWithoutPaddingApplied = ProcessedTrack +
  filter_str :: string

record TrimAndTempo =
  filter_parts :: "string option list"
  actualTrimLeft :: number
  audibleDuration :: number

record 'v request =
  trimLeft :: number
  trimRight :: number
  channels :: number
  startInVideo :: number
  volume :: 'v
  fps :: number
  playbackRate :: number
  assetDuration :: "number option"
  allowAmplificationDuringRender :: bool
  toneFrequency :: "number option"
  chunkLengthInSeconds :: number
  forSeamlessAacConcatenation :: bool

definition truthy :: "string option \<Rightarrow> bool" where
  \<comment> \<open>Modelled from the spec: \<^verbatim>\<open>truthy\<close>, imported from the module \<^verbatim>\<open>./truthy\<close>;
      "null/empty stages are skipped, not emitted as empty clauses".\<close>
  "truthy v = (case v of None \<Rightarrow> False | Some s \<Rightarrow> s \<noteq> [])"

definition stringifyTrim :: "number \<Rightarrow> string" where
  "stringifyTrim trim =
     (let value = mul trim (Num 1000000);
          asString = numberToString value @ ''us''
      in if str_includes asString ''e-'' then ''0us'' else asString)"

definition trimRightOrAssetDuration :: "number \<Rightarrow> number option \<Rightarrow> number" where
  "trimRightOrAssetDuration tright ad =
     (case ad of
        None \<Rightarrow> tright
      | Some d \<Rightarrow> if toBoolean d then Math_min tright d else tright)"

definition trimAndSetTempo ::
  "(number \<Rightarrow> string option) \<Rightarrow> number \<Rightarrow> number \<Rightarrow> number \<Rightarrow> bool \<Rightarrow> number option \<Rightarrow> error + TrimAndTempo"
where
  \<comment> \<open>the arguments after \<^verbatim>\<open>calculateATempo\<close> are \<^verbatim>\<open>playbackRate\<close>, \<^verbatim>\<open>trimLeft\<close>,
      \<^verbatim>\<open>trimRight\<close>, \<^verbatim>\<open>forSeamlessAacConcatenation\<close> and \<^verbatim>\<open>assetDuration\<close>\<close>
  "trimAndSetTempo atempo rate tleft tright seamless ad =
     (let trOrAd = trimRightOrAssetDuration tright ad
      in if seamless then
           (let actualLeft = divide tleft rate;
                actualRight = divide trOrAd rate
            in Inr \<lparr>filter_parts =
                      [atempo rate, Some (''atrim='' @ stringifyTrim actualLeft @ '':'' @ stringifyTrim actualRight)],
                    actualTrimLeft = actualLeft,
                    audibleDuration = sub actualRight actualLeft\<rparr>)
         else if \<not> seamless then
           Inr \<lparr>filter_parts =
                  [Some (''atrim='' @ stringifyTrim tleft @ '':'' @ stringifyTrim trOrAd), atempo rate],
                actualTrimLeft = tleft,
                audibleDuration = divide (sub trOrAd tleft) rate\<rparr>
         else Inl ShouldNeverHappen)"

definition padStart :: "number \<Rightarrow> number \<Rightarrow> error + string option" where
  "padStart startInVideoSeconds chans =
     (if strictEquals startInVideoSeconds (Num 0) then Inr None
      else case arrayLength (add chans (Num 1)) of
             None \<Rightarrow> Inl RangeError
           | Some n \<Rightarrow>
               Inr (Some (''adelay='' @
                 join ''|'' (replicate n (toFixed0 (mul startInVideoSeconds (Num 1000)))))))"

definition volumeClause :: "volumeFilter \<Rightarrow> string option" where
  \<comment> \<open>the volume entry of the array of clauses\<close>
  "volumeClause volumeFilter =
     (if value_str volumeFilter = ''1'' then None
      else Some (''volume='' @ value_str volumeFilter @ '':eval='' @ eval_str volumeFilter))"

definition toneClause :: "number \<Rightarrow> number option \<Rightarrow> string option" where
  \<comment> \<open>the tone entry of the array of clauses, from \<^verbatim>\<open>DEFAULT_SAMPLE_RATE\<close> and
      \<^verbatim>\<open>toneFrequency\<close>\<close>
  "toneClause sampleRate tone =
     (case tone of
        None \<Rightarrow> None
      | Some t \<Rightarrow>
          if toBoolean t \<and> \<not> strictEquals t (Num 1) then
            Some (''asetrate='' @ numberToString sampleRate @ ''*'' @ numberToString t @
                  '',aresample='' @ numberToString sampleRate @
                  '',atempo=1/'' @ numberToString t)
          else None)"

definition padEnd :: "number \<Rightarrow> number \<Rightarrow> string option" where
  \<comment> \<open>the \<^verbatim>\<open>pad_end\<close> field, from \<^verbatim>\<open>padAtEnd\<close> and \<^verbatim>\<open>DEFAULT_SAMPLE_RATE\<close>\<close>
  "padEnd padAtEnd sampleRate =
     (if gt padAtEnd (fl (1 / 10000000)) then
        Some (''apad=pad_len='' @ numberToString (Math_round (mul padAtEnd sampleRate)))
      else None)"

definition stringifyFfmpegFilter ::
  "'v deps \<Rightarrow> 'v request \<Rightarrow> error + FilterWithoutPaddingApplied option"
where
  "stringifyFfmpegFilter im r =
     (let startInVideoSeconds = divide (startInVideo r) (fps r)
      in if (case assetDuration r of None \<Rightarrow> False | Some d \<Rightarrow> toBoolean d \<and> ge (trimLeft r) d)
         then Inr None
         else if (case toneFrequency r of None \<Rightarrow> False | Some t \<Rightarrow> le t (Num 0) \<or> gt t (Num 2))
         then Inl ToneFrequencyError
         else
           case trimAndSetTempo (calculateATempo im) (playbackRate r) (trimLeft r) (trimRight r)
                  (forSeamlessAacConcatenation r) (assetDuration r) of
             Inl e \<Rightarrow> Inl e
           | Inr tt \<Rightarrow>
               let volumeFilter = ffmpegVolumeExpression im (volume r) (fps r) (actualTrimLeft tt)
                                    (allowAmplificationDuringRender r);
                   padAtEnd = sub (sub (chunkLengthInSeconds r) (audibleDuration tt)) startInVideoSeconds;
                   clauses =
                     [Some (''aformat=sample_fmts=s32:sample_rates='' @
                            numberToString (DEFAULT_SAMPLE_RATE im))] @
                     filter_parts tt @
                     [volumeClause volumeFilter,
                      toneClause (DEFAULT_SAMPLE_RATE im) (toneFrequency r)]
               in (case padStart startInVideoSeconds (channels r) of
                     Inl e \<Rightarrow> Inl e
                   | Inr ps \<Rightarrow>
                       Inr (Some \<lparr>pad_start = ps,
                                  pad_end = padEnd padAtEnd (DEFAULT_SAMPLE_RATE im),
                                  filter_str =
                                    ''[0:a]'' @ join '','' (map the (filter truthy clauses)) @ ''[a0]''\<rparr>)))"

section \<open>Example imports and requests\<close>

text \<open>
  Concrete imports and requests, on which the theorems below are instantiated: a tempo
  expression that is absent at rate 1, a volume expression that echoes its descriptor, and
  a sample rate of 48000.
\<close>

definition exampleTempo :: "number \<Rightarrow> string option" where
  "exampleTempo rate = (if strictEquals rate (Num 1) then None else Some ''atempo=2.00000'')"

definition exampleVolume :: "string \<Rightarrow> number \<Rightarrow> number \<Rightarrow> bool \<Rightarrow> volumeFilter" where
  "exampleVolume v f t a = \<lparr>value_str = v, eval_str = ''once''\<rparr>"

definition exampleDeps :: "string deps" where
  "exampleDeps =
     \<lparr>calculateATempo = exampleTempo,
      ffmpegVolumeExpression = exampleVolume,
      DEFAULT_SAMPLE_RATE = Num 48000\<rparr>"

definition exampleRequest :: "string request" where
  "exampleRequest =
     \<lparr>trimLeft = Num 0, trimRight = Num 10, channels = Num 2, startInVideo = Num 0,
      volume = ''1'', fps = Num 30, playbackRate = Num 1, assetDuration = None,
      allowAmplificationDuringRender = False, toneFrequency = None,
      chunkLengthInSeconds = Num 10, forSeamlessAacConcatenation = False\<rparr>"

definition placedRequest :: "string request" where
  \<comment> \<open>ten seconds of audio at half volume, starting one second into a chunk of thirteen\<close>
  "placedRequest =
     exampleRequest\<lparr>volume := ''0.5'', startInVideo := Num 30, chunkLengthInSeconds := Num 13\<rparr>"

definition placedResult :: FilterWithoutPaddingApplied where
  "placedResult =
     \<lparr>pad_start = Some ''adelay=1000|1000|1000'',
      pad_end = Some ''apad=pad_len=96000'',
      filter_str =
        ''[0:a]aformat=sample_fmts=s32:sample_rates=48000,atrim=0us:10000000us,volume=0.5:eval=once[a0]''\<rparr>"


definition fastRequest :: "string request" where
  \<comment> \<open>ten seconds of audio at half volume and double speed, filling a chunk of five\<close>
  "fastRequest =
     exampleRequest\<lparr>volume := ''0.5'', playbackRate := Num 2, chunkLengthInSeconds := Num 5\<rparr>"

definition fastTrimAndTempo :: TrimAndTempo where
  \<comment> \<open>what the composer returns for \<open>fastRequest\<close>\<close>
  "fastTrimAndTempo =
     \<lparr>filter_parts = [Some ''atrim=0us:10000000us'', Some ''atempo=2.00000''],
      actualTrimLeft = Num 0,
      audibleDuration = Num 5\<rparr>"

definition fastResult :: FilterWithoutPaddingApplied where
  "fastResult =
     \<lparr>pad_start = None,
      pad_end = None,
      filter_str =
        ''[0:a]aformat=sample_fmts=s32:sample_rates=48000,atrim=0us:10000000us,atempo=2.00000,volume=0.5:eval=once[a0]''\<rparr>"

section \<open>Facts about rounding\<close>

lemma ilog_bounds:
  assumes b: "1 < b" and q: "0 < q"
  shows "of_nat b powi (ilog b q) \<le> q \<and> q < of_nat b powi (ilog b q + 1)"
proof -
  obtain n d where qd: "quotient_of q = (n, d)" by (cases "quotient_of q")
  have d: "0 < d" using quotient_of_denom_pos [OF qd] .
  have qeq: "q = of_int n / of_int d" using quotient_of_div [OF qd] .
  have n: "0 < n" using q d unfolding qeq by (simp add: zero_less_divide_iff)
  define N where "N = nat n"
  define D where "D = nat d"
  have N: "0 < N" and D: "0 < D" using n d by (simp_all add: N_def D_def)
  have qND: "q = of_nat N / of_nat D" using n d by (simp add: qeq N_def D_def)
  define bn where "bn = floorlog b N"
  define bd where "bd = floorlog b D"
  have bn: "b ^ (bn - 1) \<le> N" "N < b ^ bn" using floorlog_bounds [OF N b] by (simp_all add: bn_def)
  have bd: "b ^ (bd - 1) \<le> D" "D < b ^ bd" using floorlog_bounds [OF D b] by (simp_all add: bd_def)
  have bn1: "1 \<le> bn" and bd1: "1 \<le> bd"
    using N D b by (simp_all add: bn_def bd_def floorlog_def)
  define B :: rat where "B = of_nat b"
  have B: "1 < B" using b by (simp add: B_def)
  have B0: "0 < B" "B \<noteq> 0" using B by simp_all
  define t where "t = int bn - int bd"
  have Nr: "B ^ (bn - 1) \<le> of_nat N" "(of_nat N :: rat) < B ^ bn"
    using bn unfolding B_def by (metis of_nat_le_iff of_nat_power, metis of_nat_less_iff of_nat_power)
  have Dr: "B ^ (bd - 1) \<le> of_nat D" "(of_nat D :: rat) < B ^ bd"
    using bd unfolding B_def by (metis of_nat_le_iff of_nat_power, metis of_nat_less_iff of_nat_power)
  have D0: "(0::rat) < of_nat D" using D by simp
  have upper: "q < B powi (t + 1)"
  proof -
    have "q < B ^ bn / of_nat D" unfolding qND using Nr(2) D0 by (simp add: divide_strict_right_mono)
    also have "\<dots> \<le> B ^ bn / B ^ (bd - 1)"
      using Dr(1) B0 D0 by (intro divide_left_mono mult_pos_pos) simp_all
    also have "\<dots> = B powi (int bn - int (bd - 1))"
      using B0 by (simp add: power_int_diff)
    also have "int bn - int (bd - 1) = t + 1" using bd1 by (simp add: t_def)
    finally show ?thesis .
  qed
  have lower: "B powi (t - 1) < q"
  proof -
    have "B powi (t - 1) = B ^ (bn - 1) / B ^ bd"
    proof -
      have "t - 1 = int (bn - 1) - int bd" using bn1 by (simp add: t_def)
      then show ?thesis using B0 by (simp add: power_int_diff)
    qed
    also have "\<dots> \<le> of_nat N / B ^ bd"
      using Nr(1) B0 by (simp add: divide_right_mono)
    also have "\<dots> < of_nat N / of_nat D"
      using Dr(2) N D0 by (intro divide_strict_left_mono) simp_all
    finally show ?thesis unfolding qND .
  qed
  have il: "ilog b q = (if B powi t \<le> q then t else t - 1)"
    by (simp add: ilog_def qd Let_def t_def bn_def bd_def N_def D_def B_def)
  show ?thesis
  proof (cases "B powi t \<le> q")
    case True
    with il upper show ?thesis by (simp add: B_def)
  next
    case False
    with il lower show ?thesis by (simp add: B_def)
  qed
qed

lemma powi_less_imp_less:
  fixes B :: rat
  assumes "1 < B" and "B powi m < B powi n"
  shows "m < n"
proof (rule ccontr)
  assume "\<not> m < n"
  then have "n \<le> m" by simp
  then have "B powi n \<le> B powi m" using assms(1) by (intro power_int_increasing) simp_all
  with assms(2) show False by simp
qed

lemma ilog_unique:
  assumes b: "1 < b" and q: "0 < q"
    and lo: "of_nat b powi t \<le> q" and hi: "q < of_nat b powi (t + 1)"
  shows "ilog b q = t"
proof -
  define B :: rat where "B = of_nat b"
  have B: "1 < B" using b by (simp add: B_def)
  from ilog_bounds [OF b q]
  have 1: "B powi (ilog b q) \<le> q" and 2: "q < B powi (ilog b q + 1)" by (simp_all add: B_def)
  have "B powi t < B powi (ilog b q + 1)" using lo 2 by (simp add: B_def)
  then have a: "t < ilog b q + 1" using B by (rule powi_less_imp_less [rotated])
  have "B powi (ilog b q) < B powi (t + 1)" using hi 1 by (simp add: B_def)
  then have c: "ilog b q < t + 1" using B by (rule powi_less_imp_less [rotated])
  from a c show ?thesis by simp
qed

lemma floor_numeral_divide [simp]:
  "\<lfloor>(numeral a :: rat) / numeral b\<rfloor> = numeral a div numeral b"
  using floor_divide_of_int_eq [where 'a = rat, of "numeral a" "numeral b"] by simp

lemma roundHalfEven_of_int [simp]: "roundHalfEven (of_int M) = M"
  by (simp add: roundHalfEven_def)

lemma fl_unfold:
  assumes "q \<noteq> 0" and "2 powi t \<le> \<bar>q\<bar>" and "\<bar>q\<bar> < 2 powi (t + 1)"
  shows "fl q =
     (let e = max (t - 52) (- 1074);
          m = roundHalfEven (\<bar>q\<bar> / 2 powi e);
          r = of_int m * 2 powi e
      in if 2 powi 1024 \<le> r then (if q < 0 then NegInf else PosInf)
         else if m = 0 then (if q < 0 then NegZero else Num 0)
         else Num (if q < 0 then - r else r))"
proof -
  have "ilog 2 \<bar>q\<bar> = t"
    using assms by (intro ilog_unique) simp_all
  with assms(1) show ?thesis by (simp add: fl_def)
qed

lemma fl_exact:
  assumes m: "m \<noteq> 0" "\<bar>m\<bar> < 2 ^ 53" and e: "- 1074 \<le> e"
    and q: "q = of_int m * 2 powi e" and fin: "\<bar>q\<bar> < 2 powi 1024"
  shows "fl q = Num q"
proof -
  have q0: "q \<noteq> 0" using m(1) by (simp add: q)
  have aq: "\<bar>q\<bar> = of_int \<bar>m\<bar> * 2 powi e" by (simp add: q abs_mult power_int_abs)
  define L where "L = ilog 2 \<bar>q\<bar>"
  have Lb: "2 powi L \<le> \<bar>q\<bar>" "\<bar>q\<bar> < 2 powi (L + 1)"
    using ilog_bounds [of 2 "\<bar>q\<bar>"] q0 by (simp_all add: L_def)
  have "\<bar>q\<bar> < 2 ^ 53 * 2 powi e"
    unfolding aq using m(2) by (intro mult_strict_right_mono) (simp_all add: of_int_less_iff [where 'a = rat and z = "\<bar>m\<bar>" and w = "2 ^ 53", simplified])
  also have "\<dots> = (2::rat) powi (53 + e)" by (simp add: power_int_add)
  finally have "(2::rat) powi L < 2 powi (53 + e)" using Lb(1) by simp
  then have "L < 53 + e" by (intro powi_less_imp_less [of 2]) simp_all
  define e' where "e' = max (L - 52) (- 1074)"
  have e': "e' \<le> e" using \<open>L < 53 + e\<close> e by (simp add: e'_def)
  define M where "M = \<bar>m\<bar> * 2 ^ nat (e - e')"
  have dv: "\<bar>q\<bar> / 2 powi e' = of_int M"
  proof -
    have "(2::rat) powi e / 2 powi e' = 2 powi (e - e')" by (simp add: power_int_diff)
    also have "\<dots> = 2 ^ nat (e - e')" using e' by (simp add: power_int_def)
    finally have "(2::rat) powi e / 2 powi e' = 2 ^ nat (e - e')" .
    then have "of_int \<bar>m\<bar> * (2 powi e / 2 powi e') = rat_of_int \<bar>m\<bar> * 2 ^ nat (e - e')" by simp
    then show ?thesis by (simp add: aq M_def)
  qed
  have restore: "of_int M * 2 powi e' = \<bar>q\<bar>"
    using dv by (simp add: field_simps)
  have M0: "M \<noteq> 0" using m(1) by (simp add: M_def)
  have "fl q =
      (if 2 powi 1024 \<le> rat_of_int (roundHalfEven (\<bar>q\<bar> / 2 powi e')) * 2 powi e'
       then (if q < 0 then NegInf else PosInf)
       else if roundHalfEven (\<bar>q\<bar> / 2 powi e') = 0 then (if q < 0 then NegZero else Num 0)
       else Num (if q < 0 then - (rat_of_int (roundHalfEven (\<bar>q\<bar> / 2 powi e')) * 2 powi e')
                 else rat_of_int (roundHalfEven (\<bar>q\<bar> / 2 powi e')) * 2 powi e'))"
    using fl_unfold [OF q0 Lb] by (simp only: Let_def e'_def)
  then have "fl q =
      (if 2 powi 1024 \<le> \<bar>q\<bar> then (if q < 0 then NegInf else PosInf)
       else if M = 0 then (if q < 0 then NegZero else Num 0)
       else Num (if q < 0 then - \<bar>q\<bar> else \<bar>q\<bar>))"
    by (simp only: dv roundHalfEven_of_int restore)
  with fin M0 show ?thesis by simp
qed

lemma fl_of_int:
  assumes "\<bar>i\<bar> < 2 ^ 53"
  shows "fl (of_int i) = Num (of_int i)"
proof (cases "i = 0")
  case True
  then show ?thesis by (simp add: fl_def)
next
  case False
  have "\<bar>rat_of_int i\<bar> < 2 ^ 53"
    using assms by (metis of_int_abs of_int_less_iff of_int_numeral of_int_power)
  also have "\<dots> < (2::rat) ^ 1024" by simp
  finally have "\<bar>rat_of_int i\<bar> < 2 powi 1024" by simp
  then show ?thesis
    using False assms by (intro fl_exact [where m = i and e = 0]) simp_all
qed

lemma fl_3: "fl 3 = Num 3"
  using fl_of_int [of 3] by simp

lemma roundHalfEven_error: "\<bar>of_int (roundHalfEven y) - y\<bar> \<le> 1 / 2"
proof -
  define f where "f = \<lfloor>y\<rfloor>"
  have f: "of_int f \<le> y" "y < of_int f + 1" by (simp_all add: f_def) linarith
  show ?thesis
    using f unfolding roundHalfEven_def Let_def f_def [symmetric]
    by (auto simp: abs_if split: if_splits)
qed

lemma fl_not_NaN: "fl q \<noteq> NaN"
  by (simp add: fl_def Let_def)

lemma roundHalfEven_nonneg: "0 \<le> y \<Longrightarrow> 0 \<le> roundHalfEven y"
  by (simp add: roundHalfEven_def Let_def)

lemma fl_rounding:
  assumes "q \<noteq> 0"
  obtains r where "0 \<le> r"
    and "\<bar>r - \<bar>q\<bar>\<bar> \<le> 2 powi (- 53) * \<bar>q\<bar> + 2 powi (- 1075)"
    and "fl q =
      (if 2 powi 1024 \<le> r then (if q < 0 then NegInf else PosInf)
       else if r = 0 then (if q < 0 then NegZero else Num 0)
       else Num (if q < 0 then - r else r))"
proof -
  define L where "L = ilog 2 \<bar>q\<bar>"
  define e where "e = max (L - 52) (- 1074)"
  define m where "m = roundHalfEven (\<bar>q\<bar> / 2 powi e)"
  define r where "r = rat_of_int m * 2 powi e"
  have Lb: "2 powi L \<le> \<bar>q\<bar>"
    using ilog_bounds [of 2 "\<bar>q\<bar>"] assms by (simp add: L_def)
  have pe: "(0::rat) < 2 powi e" by simp
  have m0: "0 \<le> m" unfolding m_def by (rule roundHalfEven_nonneg) simp
  then have r0: "0 \<le> r" by (simp add: r_def)
  have rm: "r = 0 \<longleftrightarrow> m = 0" by (simp add: r_def)
  have "\<bar>of_int m - \<bar>q\<bar> / 2 powi e\<bar> \<le> 1 / 2"
    unfolding m_def by (rule roundHalfEven_error)
  then have "\<bar>of_int m - \<bar>q\<bar> / 2 powi e\<bar> * 2 powi e \<le> 1 / 2 * 2 powi e"
    using pe by (intro mult_right_mono) simp_all
  moreover have "\<bar>of_int m - \<bar>q\<bar> / 2 powi e\<bar> * 2 powi e = \<bar>r - \<bar>q\<bar>\<bar>"
  proof -
    have "\<bar>of_int m - \<bar>q\<bar> / 2 powi e\<bar> * 2 powi e = \<bar>(of_int m - \<bar>q\<bar> / 2 powi e) * 2 powi e\<bar>"
      by (simp add: abs_mult)
    also have "(of_int m - \<bar>q\<bar> / 2 powi e) * 2 powi e = r - \<bar>q\<bar>"
      by (simp add: r_def algebra_simps)
    finally show ?thesis .
  qed
  ultimately have err: "\<bar>r - \<bar>q\<bar>\<bar> \<le> 1 / 2 * 2 powi e" by simp
  have half: "1 / 2 * (2::rat) powi e = 2 powi (e - 1)"
    by (simp add: power_int_diff)
  define u :: rat where "u = 2 powi (- 53)"
  define eta :: rat where "eta = 2 powi (- 1075)"
  have u0: "0 \<le> u" and eta0: "0 \<le> eta" by (simp_all add: u_def eta_def)
  have "(2::rat) powi (e - 1) \<le> u * \<bar>q\<bar> + eta"
  proof (cases "L - 52 \<le> - 1074")
    case True
    then have "e - 1 = - 1075" by (simp add: e_def)
    then have "(2::rat) powi (e - 1) = eta" by (simp only: eta_def)
    moreover have "0 \<le> u * \<bar>q\<bar>" using u0 by simp
    ultimately show ?thesis by linarith
  next
    case False
    then have "e - 1 = - 53 + L" by (simp add: e_def)
    then have "(2::rat) powi (e - 1) = 2 powi (- 53 + L)" by (simp only:)
    also have "\<dots> = u * 2 powi L"
      unfolding u_def by (rule power_int_add) simp
    also have "\<dots> \<le> u * \<bar>q\<bar>"
      using Lb u0 by (intro mult_left_mono)
    finally show ?thesis using eta0 by linarith
  qed
  with err half have "\<bar>r - \<bar>q\<bar>\<bar> \<le> u * \<bar>q\<bar> + eta" by simp
  then have bound: "\<bar>r - \<bar>q\<bar>\<bar> \<le> 2 powi (- 53) * \<bar>q\<bar> + 2 powi (- 1075)"
    unfolding u_def eta_def .
  have flq: "fl q =
      (if 2 powi 1024 \<le> r then (if q < 0 then NegInf else PosInf)
       else if r = 0 then (if q < 0 then NegZero else Num 0)
       else Num (if q < 0 then - r else r))"
    unfolding rm using assms by (simp add: fl_def L_def e_def m_def r_def Let_def)
  from r0 bound flq show ?thesis by (rule that)
qed

lemma fl_error:
  assumes fin: "\<not> isInfinite (fl q)"
  shows "\<bar>valueOf (fl q) - q\<bar> \<le> 2 powi (- 53) * \<bar>q\<bar> + 2 powi (- 1075)"
proof (cases "q = 0")
  case True
  then show ?thesis by (simp add: fl_def)
next
  case False
  then obtain r where r: "0 \<le> r"
    and bound: "\<bar>r - \<bar>q\<bar>\<bar> \<le> 2 powi (- 53) * \<bar>q\<bar> + 2 powi (- 1075)"
    and flq: "fl q =
      (if 2 powi 1024 \<le> r then (if q < 0 then NegInf else PosInf)
       else if r = 0 then (if q < 0 then NegZero else Num 0)
       else Num (if q < 0 then - r else r))"
    by (rule fl_rounding)
  have val: "valueOf (fl q) = (if q < 0 then - r else r)"
    using fin unfolding flq by (auto split: if_splits)
  have "\<bar>valueOf (fl q) - q\<bar> = \<bar>r - \<bar>q\<bar>\<bar>"
    unfolding val by (auto simp: abs_if)
  with bound show ?thesis by (simp only:)
qed

lemma fl_magnitude:
  assumes "\<bar>q\<bar> \<le> 9 / 10000000"
  shows "\<exists>v. (fl q = Num v \<or> (fl q = NegZero \<and> v = 0)) \<and>
             \<bar>v\<bar> < 4722366482869645 / 4722366482869645213696"
proof (cases "q = 0")
  case True
  then show ?thesis by (simp add: fl_def)
next
  case False
  then obtain r where r: "0 \<le> r"
    and bound: "\<bar>r - \<bar>q\<bar>\<bar> \<le> 2 powi (- 53) * \<bar>q\<bar> + 2 powi (- 1075)"
    and flq: "fl q =
      (if 2 powi 1024 \<le> r then (if q < 0 then NegInf else PosInf)
       else if r = 0 then (if q < 0 then NegZero else Num 0)
       else Num (if q < 0 then - r else r))"
    by (rule fl_rounding)
  have "(2::rat) powi (- 53) * \<bar>q\<bar> \<le> 2 powi (- 53) * (9 / 10000000)"
    using assms by (intro mult_left_mono) simp_all
  with bound assms have "r \<le> 9 / 10000000 + 2 powi (- 53) * (9 / 10000000) + 2 powi (- 1075)"
    by linarith
  also have "\<dots> < 4722366482869645 / 4722366482869645213696" by simp
  finally have small: "r < 4722366482869645 / 4722366482869645213696" .
  then have "\<not> 2 powi 1024 \<le> r" by simp
  with flq have "fl q = (if r = 0 then (if q < 0 then NegZero else Num 0)
       else Num (if q < 0 then - r else r))" by simp
  with small r show ?thesis by (auto split: if_splits)
qed

section \<open>Evaluating the builder on the example requests\<close>

lemma fl_numeral: "(numeral w :: int) < 2 ^ 53 \<Longrightarrow> fl (numeral w) = Num (numeral w)"
  using fl_of_int [of "numeral w"] by simp

lemma fl_1: "fl 1 = Num 1"
  using fl_of_int [of 1] by simp

lemma shortestDigits_found:
  "digitsAt x k = Some c \<Longrightarrow> shortestDigits x k = (fst c, snd c, k)"
  by (simp add: shortestDigits.simps [of x k])

lemma shortestDigits_next:
  "digitsAt x k = None \<Longrightarrow> k < 17 \<Longrightarrow> shortestDigits x k = shortestDigits x (Suc k)"
  by (simp add: shortestDigits.simps [of x k])

lemma ilog10_96000: "ilog 10 96000 = 4"
  by (rule ilog_unique) simp_all

lemma digitsAt_96000_1: "digitsAt 96000 (Suc 0) = None"
  by (simp add: digitsAt_def lowerDigits_def upperDigits_def roundTrips_def ilog10_96000 fl_numeral Let_def)

lemma digitsAt_96000_2: "digitsAt 96000 (Suc (Suc 0)) = Some (96, 5)"
  by (simp add: digitsAt_def lowerDigits_def upperDigits_def roundTrips_def ilog10_96000 fl_numeral Let_def)

lemma shortest_96000: "shortestDigits 96000 (Suc 0) = (96, 5, 2)"
  using shortestDigits_next [OF digitsAt_96000_1] shortestDigits_found [OF digitsAt_96000_2]
  by simp

lemma toString_96000: "positiveToString 96000 = ''96000''"
  by (simp add: positiveToString_def shortest_96000 digitsOfNat.simps digitChar_def numeral_3_eq_3)

lemma ilog10_48000: "ilog 10 48000 = 4"
  by (rule ilog_unique) simp_all

lemma digitsAt_48000_1: "digitsAt 48000 (Suc 0) = None"
  by (simp add: digitsAt_def lowerDigits_def upperDigits_def roundTrips_def ilog10_48000 fl_numeral Let_def)

lemma digitsAt_48000_2: "digitsAt 48000 (Suc (Suc 0)) = Some (48, 5)"
  by (simp add: digitsAt_def lowerDigits_def upperDigits_def roundTrips_def ilog10_48000 fl_numeral Let_def)

lemma shortest_48000: "shortestDigits 48000 (Suc 0) = (48, 5, 2)"
  using shortestDigits_next [OF digitsAt_48000_1] shortestDigits_found [OF digitsAt_48000_2]
  by simp

lemma toString_48000: "positiveToString 48000 = ''48000''"
  by (simp add: positiveToString_def shortest_48000 digitsOfNat.simps digitChar_def numeral_3_eq_3)

lemma ilog10_10000000: "ilog 10 10000000 = 7"
  by (rule ilog_unique) simp_all

lemma digitsAt_10000000: "digitsAt 10000000 (Suc 0) = Some (1, 8)"
  by (simp add: digitsAt_def lowerDigits_def upperDigits_def roundTrips_def ilog10_10000000 fl_numeral Let_def)

lemma toString_10000000: "positiveToString 10000000 = ''10000000''"
  using shortestDigits_found [OF digitsAt_10000000]
  by (simp add: positiveToString_def digitsOfNat.simps digitChar_def eval_nat_numeral)

lemma stringifyTrim_0: "stringifyTrim (Num 0) = ''0us''"
  by (simp add: stringifyTrim_def mul_def signedZero_def)

lemma stringifyTrim_10: "stringifyTrim (Num 10) = ''10000000us''"
  by (simp add: stringifyTrim_def mul_def fl_numeral toString_10000000)

lemma fl_tolerance: "fl (1 / 10000000) = Num (944473296573929 / 9444732965739290427392)"
  by (subst fl_unfold [where t = "- 24"]) (simp_all add: roundHalfEven_def Let_def)

lemma digits_1000: "digitsOfNat 1000 = ''1000''"
  by (simp add: digitsOfNat.simps digitChar_def)

lemma placedRequest_result:
  "stringifyFfmpegFilter exampleDeps placedRequest = Inr (Some placedResult)"
  by (simp add: stringifyFfmpegFilter_def placedRequest_def exampleRequest_def exampleDeps_def
      exampleTempo_def exampleVolume_def placedResult_def trimAndSetTempo_def
      trimRightOrAssetDuration_def volumeClause_def toneClause_def padEnd_def padStart_def
      truthy_def strictEquals_def arrayLength_def
      sub_def divide_def mul_def gt_def fl_numeral fl_1 fl_tolerance
      stringifyTrim_0 stringifyTrim_10 toString_48000 toString_96000 digits_1000
      numeral_3_eq_3)

section \<open>Which of the three outcomes a request has\<close>

lemma gt_zero_toBoolean: "gt d (Num 0) \<Longrightarrow> toBoolean d"
  by (cases d) (auto simp: gt_def toBoolean_def)

lemma stringifyFfmpegFilter_null_iff:
  "stringifyFfmpegFilter im r = Inr None \<longleftrightarrow>
     (\<exists>d. assetDuration r = Some d \<and> toBoolean d \<and> ge (trimLeft r) d)"
  by (simp add: stringifyFfmpegFilter_def trimAndSetTempo_def Let_def
      split: option.splits sum.splits)

lemma stringifyFfmpegFilter_error_cases:
  "stringifyFfmpegFilter im r = Inl e \<Longrightarrow> e = ToneFrequencyError \<or> e = RangeError"
  by (simp add: stringifyFfmpegFilter_def trimAndSetTempo_def padStart_def Let_def
      split: option.splits sum.splits if_splits)

lemma stringifyFfmpegFilter_ToneFrequencyError:
  "stringifyFfmpegFilter im r = Inl ToneFrequencyError \<Longrightarrow>
     \<exists>t. toneFrequency r = Some t \<and> (le t (Num 0) \<or> gt t (Num 2))"
  by (simp add: stringifyFfmpegFilter_def trimAndSetTempo_def padStart_def Let_def
      split: option.splits sum.splits if_splits)

lemma stringifyFfmpegFilter_RangeError:
  "stringifyFfmpegFilter im r = Inl RangeError \<Longrightarrow> arrayLength (add (channels r) (Num 1)) = None"
  by (simp add: stringifyFfmpegFilter_def trimAndSetTempo_def padStart_def Let_def
      split: option.splits sum.splits if_splits)

text \<open>
  C10. The check for an asset that contributes nothing comes before the validation of
  \<^verbatim>\<open>toneFrequency\<close>: when \<^verbatim>\<open>assetDuration\<close> is known and positive and
  \<^verbatim>\<open>trimLeft >= assetDuration\<close>, the result is \<^verbatim>\<open>null\<close> whatever \<^verbatim>\<open>toneFrequency\<close> is,
  so also when it lies outside \<open>(0, 2]\<close>; the validation error is not thrown.
\<close>

theorem no_contribution_before_tone_validation:
  assumes "assetDuration r = Some d" and "gt d (Num 0)" and "ge (trimLeft r) d"
  shows "stringifyFfmpegFilter im r = Inr None \<and>
         stringifyFfmpegFilter im r \<noteq> Inl ToneFrequencyError"
proof -
  have "toBoolean d" using assms(2) by (rule gt_zero_toBoolean)
  with assms(1,3) have "stringifyFfmpegFilter im r = Inr None"
    unfolding stringifyFfmpegFilter_null_iff by blast
  then show ?thesis by simp
qed

theorem no_contribution_before_tone_validation_witness:
  "assetDuration (exampleRequest\<lparr>trimLeft := Num 5, assetDuration := Some (Num 3),
       toneFrequency := Some (Num 3)\<rparr>) = Some (Num 3) \<and>
   gt (Num 3) (Num 0) \<and>
   ge (trimLeft (exampleRequest\<lparr>trimLeft := Num 5, assetDuration := Some (Num 3),
       toneFrequency := Some (Num 3)\<rparr>)) (Num 3) \<and>
   toneFrequency (exampleRequest\<lparr>trimLeft := Num 5, assetDuration := Some (Num 3),
       toneFrequency := Some (Num 3)\<rparr>) = Some (Num 3) \<and>
   gt (Num 3) (Num 2) \<and>
   stringifyFfmpegFilter exampleDeps (exampleRequest\<lparr>trimLeft := Num 5,
       assetDuration := Some (Num 3), toneFrequency := Some (Num 3)\<rparr>) = Inr None"
proof -
  have a: "assetDuration (exampleRequest\<lparr>trimLeft := Num 5, assetDuration := Some (Num 3),
       toneFrequency := Some (Num 3)\<rparr>) = Some (Num 3)"
    by simp
  have b: "gt (Num 3) (Num 0)" by (simp add: gt_def)
  have c: "ge (trimLeft (exampleRequest\<lparr>trimLeft := Num 5, assetDuration := Some (Num 3),
       toneFrequency := Some (Num 3)\<rparr>)) (Num 3)"
    by (simp add: ge_def le_def)
  show ?thesis
    using no_contribution_before_tone_validation [OF a b c, of exampleDeps] a b c
    by (simp add: gt_def)
qed

text \<open>
  C3, as stated, fails when \<^verbatim>\<open>assetDuration\<close> is \<open>0\<close>: the check is
  \<^verbatim>\<open>assetDuration && trimLeft >= assetDuration\<close>, and \<open>0\<close> is falsy. With
  \<^verbatim>\<open>assetDuration = 0\<close> and \<^verbatim>\<open>trimLeft = 5\<close> the result is not \<^verbatim>\<open>null\<close>.
\<close>

theorem null_for_zero_assetDuration_counterexample:
  "assetDuration (exampleRequest\<lparr>trimLeft := Num 5, assetDuration := Some (Num 0)\<rparr>) = Some (Num 0) \<and>
   ge (trimLeft (exampleRequest\<lparr>trimLeft := Num 5, assetDuration := Some (Num 0)\<rparr>)) (Num 0) \<and>
   stringifyFfmpegFilter exampleDeps (exampleRequest\<lparr>trimLeft := Num 5, assetDuration := Some (Num 0)\<rparr>)
     \<noteq> Inr None"
  by (simp add: stringifyFfmpegFilter_null_iff toBoolean_def ge_def le_def)

text \<open>
  C3, amended. When \<^verbatim>\<open>assetDuration\<close> is known and not zero and
  \<^verbatim>\<open>trimLeft >= assetDuration\<close>, the result is \<^verbatim>\<open>null\<close>; with \<^verbatim>\<open>trimLeft = 5\<close> and
  \<^verbatim>\<open>assetDuration = 3\<close> it is \<^verbatim>\<open>null\<close>.
\<close>

theorem null_when_trimmed_away:
  assumes "assetDuration r = Some d" and "\<not> isZero d" and "ge (trimLeft r) d"
  shows "stringifyFfmpegFilter im r = Inr None"
proof -
  from assms(3) have "d \<noteq> NaN" by (auto simp: ge_def le_def)
  with assms(2) have "toBoolean d" by (simp add: toBoolean_def)
  with assms(1,3) show ?thesis
    unfolding stringifyFfmpegFilter_null_iff by blast
qed

theorem null_when_trimmed_away_witness:
  "assetDuration (exampleRequest\<lparr>trimLeft := Num 5, assetDuration := Some (Num 3)\<rparr>) = Some (Num 3) \<and>
   \<not> isZero (Num 3) \<and>
   ge (trimLeft (exampleRequest\<lparr>trimLeft := Num 5, assetDuration := Some (Num 3)\<rparr>)) (Num 3) \<and>
   stringifyFfmpegFilter exampleDeps (exampleRequest\<lparr>trimLeft := Num 5, assetDuration := Some (Num 3)\<rparr>)
     = Inr None"
proof -
  have a: "assetDuration (exampleRequest\<lparr>trimLeft := Num 5, assetDuration := Some (Num 3)\<rparr>) = Some (Num 3)"
    by simp
  have b: "\<not> isZero (Num 3)" by simp
  have c: "ge (trimLeft (exampleRequest\<lparr>trimLeft := Num 5, assetDuration := Some (Num 3)\<rparr>)) (Num 3)"
    by (simp add: ge_def le_def)
  show ?thesis
    using null_when_trimmed_away [OF a b c, of exampleDeps] a b c by simp
qed

text \<open>
  C5, as stated, fails: a request whose asset contributes nothing returns \<^verbatim>\<open>null\<close> before
  \<^verbatim>\<open>toneFrequency\<close> is looked at. With \<^verbatim>\<open>trimLeft = 5\<close>, \<^verbatim>\<open>assetDuration = 3\<close> and
  \<^verbatim>\<open>toneFrequency = 3\<close>, outside \<open>(0, 2]\<close>, no validation error is thrown.
\<close>

theorem tone_error_exactly_when_outside_counterexample:
  "toneFrequency (exampleRequest\<lparr>trimLeft := Num 5, assetDuration := Some (Num 3),
       toneFrequency := Some (Num 3)\<rparr>) = Some (Num 3) \<and>
   \<not> (gt (Num 3) (Num 0) \<and> le (Num 3) (Num 2)) \<and>
   stringifyFfmpegFilter exampleDeps (exampleRequest\<lparr>trimLeft := Num 5,
       assetDuration := Some (Num 3), toneFrequency := Some (Num 3)\<rparr>) \<noteq> Inl ToneFrequencyError"
  by (simp add: stringifyFfmpegFilter_def toBoolean_def ge_def le_def gt_def)

text \<open>
  C5, amended. \<^verbatim>\<open>stringifyFfmpegFilter\<close> throws the validation error exactly when the
  no-contribution check does not return first (\<^verbatim>\<open>assetDuration\<close> is unknown or zero, or
  \<^verbatim>\<open>trimLeft < assetDuration\<close>) and \<^verbatim>\<open>toneFrequency\<close> is provided and is \<open>\<le> 0\<close> or
  \<open>> 2\<close>. For such a request \<^verbatim>\<open>toneFrequency = 3\<close> and \<^verbatim>\<open>toneFrequency = 0\<close> fail,
  \<^verbatim>\<open>toneFrequency = 2\<close> does not, and \<^verbatim>\<open>toneFrequency = null\<close> never does.
\<close>

theorem tone_error_iff:
  "stringifyFfmpegFilter im r = Inl ToneFrequencyError \<longleftrightarrow>
     \<not> (\<exists>d. assetDuration r = Some d \<and> toBoolean d \<and> ge (trimLeft r) d) \<and>
     (\<exists>t. toneFrequency r = Some t \<and> (le t (Num 0) \<or> gt t (Num 2)))"
  by (simp add: stringifyFfmpegFilter_def trimAndSetTempo_def padStart_def Let_def
      split: option.splits sum.splits)

theorem tone_error_iff_witness:
  "stringifyFfmpegFilter exampleDeps (exampleRequest\<lparr>toneFrequency := Some (Num 3)\<rparr>)
     = Inl ToneFrequencyError \<and>
   stringifyFfmpegFilter exampleDeps (exampleRequest\<lparr>toneFrequency := Some (Num 0)\<rparr>)
     = Inl ToneFrequencyError \<and>
   stringifyFfmpegFilter exampleDeps (exampleRequest\<lparr>toneFrequency := Some (Num 2)\<rparr>)
     \<noteq> Inl ToneFrequencyError \<and>
   stringifyFfmpegFilter exampleDeps (exampleRequest\<lparr>toneFrequency := None\<rparr>)
     \<noteq> Inl ToneFrequencyError"
proof -
  have "stringifyFfmpegFilter exampleDeps (exampleRequest\<lparr>toneFrequency := Some (Num 3)\<rparr>)
          = Inl ToneFrequencyError"
    using tone_error_iff [of exampleDeps "exampleRequest\<lparr>toneFrequency := Some (Num 3)\<rparr>"]
    by (simp add: exampleRequest_def gt_def)
  moreover
  have "stringifyFfmpegFilter exampleDeps (exampleRequest\<lparr>toneFrequency := Some (Num 0)\<rparr>)
          = Inl ToneFrequencyError"
    using tone_error_iff [of exampleDeps "exampleRequest\<lparr>toneFrequency := Some (Num 0)\<rparr>"]
    by (simp add: exampleRequest_def le_def)
  moreover
  have "stringifyFfmpegFilter exampleDeps (exampleRequest\<lparr>toneFrequency := Some (Num 2)\<rparr>)
          \<noteq> Inl ToneFrequencyError"
    using tone_error_iff [of exampleDeps "exampleRequest\<lparr>toneFrequency := Some (Num 2)\<rparr>"]
    by (simp add: exampleRequest_def le_def gt_def)
  moreover
  have "stringifyFfmpegFilter exampleDeps (exampleRequest\<lparr>toneFrequency := None\<rparr>)
          \<noteq> Inl ToneFrequencyError"
    using tone_error_iff [of exampleDeps "exampleRequest\<lparr>toneFrequency := None\<rparr>"]
    by (simp add: exampleRequest_def)
  ultimately show ?thesis by blast
qed

text \<open>
  C9. An \<^verbatim>\<open>assetDuration\<close> of exactly \<open>0\<close> is treated as an unknown one: the result is the
  one for \<^verbatim>\<open>assetDuration = null\<close>, the right trim bound is not clamped to \<open>0\<close>, and the
  result is never \<^verbatim>\<open>null\<close>, although \<^verbatim>\<open>trimLeft >= 0\<close>. The request yields a fragment
  whenever \<^verbatim>\<open>toneFrequency\<close> passes its validation and \<^verbatim>\<open>channels + 1\<close> is an array length.
\<close>

theorem zero_assetDuration_is_unknown:
  "stringifyFfmpegFilter im (r\<lparr>assetDuration := Some (Num 0)\<rparr>)
     = stringifyFfmpegFilter im (r\<lparr>assetDuration := None\<rparr>) \<and>
   trimRightOrAssetDuration tright (Some (Num 0)) = tright \<and>
   stringifyFfmpegFilter im (r\<lparr>assetDuration := Some (Num 0)\<rparr>) \<noteq> Inr None \<and>
   ((case toneFrequency r of None \<Rightarrow> True | Some t \<Rightarrow> \<not> le t (Num 0) \<and> \<not> gt t (Num 2)) \<longrightarrow>
    arrayLength (add (channels r) (Num 1)) \<noteq> None \<longrightarrow>
    (\<exists>f. stringifyFfmpegFilter im (r\<lparr>assetDuration := Some (Num 0)\<rparr>) = Inr (Some f)))"
proof -
  let ?r0 = "r\<lparr>assetDuration := Some (Num 0)\<rparr>"
  have same: "stringifyFfmpegFilter im ?r0 = stringifyFfmpegFilter im (r\<lparr>assetDuration := None\<rparr>)"
    by (simp add: stringifyFfmpegFilter_def trimAndSetTempo_def trimRightOrAssetDuration_def
        toBoolean_def Let_def)
  have clamp: "trimRightOrAssetDuration tright (Some (Num 0)) = tright"
    by (simp add: trimRightOrAssetDuration_def toBoolean_def)
  have notnull: "stringifyFfmpegFilter im ?r0 \<noteq> Inr None"
    by (simp add: stringifyFfmpegFilter_null_iff toBoolean_def)
  have frag: "\<exists>f. stringifyFfmpegFilter im ?r0 = Inr (Some f)"
    if tone: "case toneFrequency r of None \<Rightarrow> True | Some t \<Rightarrow> \<not> le t (Num 0) \<and> \<not> gt t (Num 2)"
      and len: "arrayLength (add (channels r) (Num 1)) \<noteq> None"
  proof (cases "stringifyFfmpegFilter im ?r0")
    case (Inl e)
    then have "e = ToneFrequencyError \<or> e = RangeError"
      by (rule stringifyFfmpegFilter_error_cases)
    then show ?thesis
    proof
      assume "e = ToneFrequencyError"
      with Inl have "\<exists>t. toneFrequency ?r0 = Some t \<and> (le t (Num 0) \<or> gt t (Num 2))"
        using stringifyFfmpegFilter_ToneFrequencyError by blast
      with tone show ?thesis by auto
    next
      assume "e = RangeError"
      with Inl have "arrayLength (add (channels ?r0) (Num 1)) = None"
        using stringifyFfmpegFilter_RangeError by blast
      with len show ?thesis by simp
    qed
  next
    case (Inr res)
    with notnull show ?thesis by (cases res) auto
  qed
  from same clamp notnull frag show ?thesis by blast
qed

theorem zero_assetDuration_is_unknown_witness:
  "stringifyFfmpegFilter exampleDeps (exampleRequest\<lparr>assetDuration := Some (Num 0)\<rparr>)
     = stringifyFfmpegFilter exampleDeps (exampleRequest\<lparr>assetDuration := None\<rparr>) \<and>
   ge (trimLeft exampleRequest) (Num 0) \<and>
   (case toneFrequency exampleRequest of None \<Rightarrow> True | Some t \<Rightarrow> \<not> le t (Num 0) \<and> \<not> gt t (Num 2)) \<and>
   arrayLength (add (channels exampleRequest) (Num 1)) \<noteq> None \<and>
   (\<exists>f. stringifyFfmpegFilter exampleDeps (exampleRequest\<lparr>assetDuration := Some (Num 0)\<rparr>)
          = Inr (Some f))"
proof -
  have tone: "case toneFrequency exampleRequest of None \<Rightarrow> True
              | Some t \<Rightarrow> \<not> le t (Num 0) \<and> \<not> gt t (Num 2)"
    by (simp add: exampleRequest_def)
  have len: "arrayLength (add (channels exampleRequest) (Num 1)) \<noteq> None"
    by (simp add: exampleRequest_def arrayLength_def fl_3)
  have ge0: "ge (trimLeft exampleRequest) (Num 0)"
    by (simp add: exampleRequest_def ge_def le_def)
  show ?thesis
    using zero_assetDuration_is_unknown [of exampleDeps exampleRequest] tone len ge0
    by blast
qed

text \<open>
  C4. In seamless mode the composer puts the tempo expression before the trim clause, and
  the trim clause is built from both trim bounds divided by \<^verbatim>\<open>playbackRate\<close>; in default
  mode it puts the trim clause first, built from the bounds as they are, and the tempo
  expression after it. The right bound is \<^verbatim>\<open>trimRight\<close>, or its minimum with a known,
  non-zero \<^verbatim>\<open>assetDuration\<close>.
\<close>

theorem trim_and_tempo_order:
  "map_sum id filter_parts (trimAndSetTempo atempo rate tleft tright True ad) =
     Inr [atempo rate,
          Some (''atrim='' @ stringifyTrim (divide tleft rate) @ '':'' @
                stringifyTrim (divide (trimRightOrAssetDuration tright ad) rate))] \<and>
   map_sum id filter_parts (trimAndSetTempo atempo rate tleft tright False ad) =
     Inr [Some (''atrim='' @ stringifyTrim tleft @ '':'' @
                stringifyTrim (trimRightOrAssetDuration tright ad)),
          atempo rate] \<and>
   trimRightOrAssetDuration tright None = tright"
  by (simp add: trimAndSetTempo_def trimRightOrAssetDuration_def Let_def)

section \<open>The pad directives\<close>

lemma strictEquals_zero: "strictEquals s (Num 0) \<longleftrightarrow> isZero s"
  by (cases s) (auto simp: strictEquals_def)

lemma trimAndSetTempo_Inr:
  "trimAndSetTempo atempo rate tleft tright seamless ad =
     Inr (if seamless then
            \<lparr>filter_parts =
               [atempo rate,
                Some (''atrim='' @ stringifyTrim (divide tleft rate) @ '':'' @
                      stringifyTrim (divide (trimRightOrAssetDuration tright ad) rate))],
             actualTrimLeft = divide tleft rate,
             audibleDuration = sub (divide (trimRightOrAssetDuration tright ad) rate) (divide tleft rate)\<rparr>
          else
            \<lparr>filter_parts =
               [Some (''atrim='' @ stringifyTrim tleft @ '':'' @
                      stringifyTrim (trimRightOrAssetDuration tright ad)),
                atempo rate],
             actualTrimLeft = tleft,
             audibleDuration = divide (sub (trimRightOrAssetDuration tright ad) tleft) rate\<rparr>)"
  by (simp add: trimAndSetTempo_def Let_def)

lemma stringifyFfmpegFilter_fragment:
  assumes "stringifyFfmpegFilter im r = Inr (Some f)"
    and "trimAndSetTempo (calculateATempo im) (playbackRate r) (trimLeft r) (trimRight r)
           (forSeamlessAacConcatenation r) (assetDuration r) = Inr tt"
  shows "padStart (divide (startInVideo r) (fps r)) (channels r) = Inr (pad_start f)"
    and "pad_end f =
           padEnd (sub (sub (chunkLengthInSeconds r) (audibleDuration tt))
                     (divide (startInVideo r) (fps r))) (DEFAULT_SAMPLE_RATE im)"
    and "filter_str f =
           ''[0:a]'' @
           join '','' (map the (filter truthy
             ([Some (''aformat=sample_fmts=s32:sample_rates='' @
                     numberToString (DEFAULT_SAMPLE_RATE im))] @
              filter_parts tt @
              [volumeClause (ffmpegVolumeExpression im (volume r) (fps r) (actualTrimLeft tt)
                               (allowAmplificationDuringRender r)),
               toneClause (DEFAULT_SAMPLE_RATE im) (toneFrequency r)]))) @
           ''[a0]''"
  using assms
  by (auto simp: stringifyFfmpegFilter_def Let_def split: option.splits sum.splits if_splits)

lemma arrayLength_nat:
  assumes "c < 2 ^ 32 - 1"
  shows "arrayLength (add (Num (of_nat c)) (Num 1)) = Some (c + 1)"
proof -
  have c: "int c + 1 < 2 ^ 32" using assms by simp
  have "\<bar>int c + 1\<bar> < 2 ^ 53" using c by simp
  then have "fl (of_int (int c + 1)) = Num (of_int (int c + 1))" by (rule fl_of_int)
  then have "add (Num (of_nat c)) (Num 1) = Num (of_int (int c + 1))" by simp
  moreover have "rat_of_int (int c + 1) < 2 ^ 32"
    using c by (metis of_int_less_iff of_int_numeral of_int_power)
  ultimately show ?thesis by (simp add: arrayLength_def)
qed

lemma divide_self: "q \<noteq> 0 \<Longrightarrow> divide (Num q) (Num q) = Num 1"
  by (simp add: divide_def fl_1)

lemma delay_1000: "toFixed0 (mul (Num 1) (Num 1000)) = ''1000''"
  by (simp add: mul_def fl_numeral digits_1000)

text \<open>
  C7. In every fragment \<^verbatim>\<open>pad_start\<close> is \<^verbatim>\<open>null\<close> exactly when
  \<^verbatim>\<open>startInVideo / fps\<close> is zero. Otherwise it is \<^verbatim>\<open>adelay=\<close> followed by the delay in
  milliseconds, written by \<^verbatim>\<open>toFixed(0)\<close>, once more than there are channels, joined by
  \<^verbatim>\<open>|\<close>. With \<^verbatim>\<open>startInVideo = fps\<close> and two channels it is
  \<^verbatim>\<open>adelay=1000|1000|1000\<close>.
\<close>

theorem pad_start_directive:
  assumes "stringifyFfmpegFilter im r = Inr (Some f)"
  shows "(pad_start f = None \<longleftrightarrow> isZero (divide (startInVideo r) (fps r))) \<and>
    (\<forall>c. \<not> isZero (divide (startInVideo r) (fps r)) \<longrightarrow> channels r = Num (of_nat c) \<longrightarrow>
         c < 2 ^ 32 - 1 \<longrightarrow>
         pad_start f =
           Some (''adelay='' @
                 join ''|'' (replicate (c + 1)
                   (toFixed0 (mul (divide (startInVideo r) (fps r)) (Num 1000)))))) \<and>
    (\<forall>q. startInVideo r = Num q \<longrightarrow> fps r = Num q \<longrightarrow> q \<noteq> 0 \<longrightarrow> channels r = Num 2 \<longrightarrow>
         pad_start f = Some ''adelay=1000|1000|1000'')"
proof -
  let ?s = "divide (startInVideo r) (fps r)"
  obtain tt where tt: "trimAndSetTempo (calculateATempo im) (playbackRate r) (trimLeft r)
      (trimRight r) (forSeamlessAacConcatenation r) (assetDuration r) = Inr tt"
    using trimAndSetTempo_Inr by blast
  have ps: "padStart ?s (channels r) = Inr (pad_start f)"
    using stringifyFfmpegFilter_fragment(1) [OF assms tt] .
  have 1: "pad_start f = None \<longleftrightarrow> isZero ?s"
    using ps [symmetric] by (auto simp: padStart_def strictEquals_zero split: if_splits option.splits)
  have 2: "pad_start f =
      Some (''adelay='' @ join ''|'' (replicate (c + 1) (toFixed0 (mul ?s (Num 1000)))))"
    if "\<not> isZero ?s" and "channels r = Num (of_nat c)" and "c < 2 ^ 32 - 1" for c
    using ps that arrayLength_nat [of c] by (simp add: padStart_def strictEquals_zero)
  have 3: "pad_start f = Some ''adelay=1000|1000|1000''"
    if "startInVideo r = Num q" and "fps r = Num q" and "q \<noteq> 0" and "channels r = Num 2" for q
    using ps that arrayLength_nat [of 2]
    by (simp add: padStart_def strictEquals_zero divide_self delay_1000 numeral_3_eq_3)
  from 1 2 3 show ?thesis by blast
qed

theorem pad_start_directive_witness:
  "stringifyFfmpegFilter exampleDeps placedRequest = Inr (Some placedResult) \<and>
   startInVideo placedRequest = Num 30 \<and> fps placedRequest = Num 30 \<and> (30::rat) \<noteq> 0 \<and>
   channels placedRequest = Num (of_nat 2) \<and> (2::nat) < 2 ^ 32 - 1 \<and>
   \<not> isZero (divide (startInVideo placedRequest) (fps placedRequest)) \<and>
   pad_start placedResult \<noteq> None \<and>
   pad_start placedResult = Some ''adelay=1000|1000|1000''"
proof -
  have c: "channels placedRequest = Num 2" "startInVideo placedRequest = Num 30"
    "fps placedRequest = Num 30"
    by (simp_all add: placedRequest_def exampleRequest_def)
  have z: "\<not> isZero (divide (startInVideo placedRequest) (fps placedRequest))"
    by (simp add: c divide_self)
  have "\<forall>q. startInVideo placedRequest = Num q \<longrightarrow> fps placedRequest = Num q \<longrightarrow> q \<noteq> 0 \<longrightarrow>
          channels placedRequest = Num 2 \<longrightarrow> pad_start placedResult = Some ''adelay=1000|1000|1000''"
    using pad_start_directive [OF placedRequest_result] by blast
  then have "pad_start placedResult = Some ''adelay=1000|1000|1000''"
    using c by simp
  with c z placedRequest_result show ?thesis by simp
qed








section \<open>The volume clause\<close>

lemma str_includes_iff_occurrences: "str_includes s t \<longleftrightarrow> 0 < occurrences s t"
  by (induction s) auto

lemma prefix_append_sep:
  assumes "c \<notin> set p"
  shows "prefix p (a @ c # b) \<longleftrightarrow> prefix p a"
proof
  assume "prefix p (a @ c # b)"
  then obtain z where z: "a @ c # b = p @ z" by (auto simp: prefix_def)
  show "prefix p a"
  proof (cases "length p \<le> length a")
    case True
    with z show ?thesis
      by (metis prefixI append_eq_append_conv_if append_take_drop_id)
  next
    case False
    then have "length a < length p" by simp
    then have "(p @ z) ! length a = p ! length a" by (simp add: nth_append)
    moreover have "(a @ c # b) ! length a = c" by simp
    ultimately have "p ! length a = c" using z by simp
    with \<open>length a < length p\<close> assms show ?thesis by (metis nth_mem)
  qed
next
  assume "prefix p a"
  then show "prefix p (a @ c # b)" by simp
qed

lemma occurrences_append_sep:
  assumes "c \<notin> set p" and "p \<noteq> []"
  shows "occurrences (a @ c # b) p = occurrences a p + occurrences b p"
proof (induction a)
  case Nil
  have "\<not> prefix p (c # b)" using assms by (cases p) auto
  then show ?case using assms by simp
next
  case (Cons x a)
  have "prefix p ((x # a) @ c # b) \<longleftrightarrow> prefix p (x # a)"
    using assms(1) by (rule prefix_append_sep)
  with Cons show ?case by simp
qed

lemma occurrences_join:
  assumes "c \<notin> set p" and "p \<noteq> []"
  shows "occurrences (join [c] xs) p = sum_list (map (\<lambda>x. occurrences x p) xs)"
proof (induction "[c]" xs rule: join.induct)
  case 1
  then show ?case using assms by simp
next
  case (2 x)
  then show ?case by simp
next
  case (3 x y ys)
  then show ?case using occurrences_append_sep [OF assms, of x "join [c] (y # ys)"] by simp
qed

lemma occurrences_none:
  assumes "c \<notin> set s"
  shows "occurrences s (c # p) = 0"
  using assms by (induction s) auto

lemma digitChar_digit: "d < 10 \<Longrightarrow> digitChar d \<in> set ''0123456789''"
  unfolding digitChar_def by (rule nth_mem) simp

lemma digitsOfNat_chars: "set (digitsOfNat n) \<subseteq> set ''0123456789''"
proof (induction n rule: digitsOfNat.induct)
  case (1 n)
  show ?case
  proof (cases "n < 10")
    case True
    then show ?thesis using digitChar_digit [of n] by (subst digitsOfNat.simps) simp
  next
    case False
    have "digitChar (n mod 10) \<in> set ''0123456789''" by (rule digitChar_digit) simp
    with False 1 show ?thesis by (subst digitsOfNat.simps) simp
  qed
qed

lemma no_v_digits: "CHR ''v'' \<notin> set (digitsOfNat n)"
  using digitsOfNat_chars [of n] by auto

lemma no_v_take: "CHR ''v'' \<notin> set (take k (digitsOfNat n))"
  using no_v_digits [of n] by (meson in_set_takeD)

lemma no_v_drop: "CHR ''v'' \<notin> set (drop k (digitsOfNat n))"
  using no_v_digits [of n] by (meson in_set_dropD)

lemma no_v_positiveToString: "CHR ''v'' \<notin> set (positiveToString x)"
  by (simp add: positiveToString_def Let_def no_v_digits no_v_take no_v_drop split: prod.splits)

lemma no_v_numberToString: "CHR ''v'' \<notin> set (numberToString x)"
  by (cases x) (simp_all add: no_v_positiveToString)

lemma no_v_stringifyTrim: "CHR ''v'' \<notin> set (stringifyTrim x)"
  by (simp add: stringifyTrim_def Let_def no_v_numberToString)

lemma str_includes_empty [simp]: "str_includes s []"
  by (cases s) simp_all

lemma str_includes_append_right: "str_includes s t \<Longrightarrow> str_includes (s @ b) t"
proof (induction s)
  case Nil
  then show ?case by simp
next
  case (Cons a s)
  from Cons.prems have "prefix t (a # s) \<or> str_includes s t" by simp
  then show ?case
  proof
    assume "prefix t (a # s)"
    then have "prefix t ((a # s) @ b)" by (rule prefix_prefix)
    then show ?thesis by simp
  next
    assume "str_includes s t"
    then show ?thesis using Cons.IH by simp
  qed
qed

lemma str_includes_append_left: "str_includes s t \<Longrightarrow> str_includes (a @ s) t"
  by (induction a) auto

lemma str_includes_self: "str_includes s s"
  by (cases s) simp_all

lemma str_includes_join:
  "x \<in> set xs \<Longrightarrow> str_includes (join sep xs) x"
proof (induction sep xs rule: join.induct)
  case (1 sep)
  then show ?case by simp
next
  case (2 sep y)
  then show ?case by (simp add: str_includes_self)
next
  case (3 sep y z zs)
  show ?case
  proof (cases "x = y")
    case True
    then show ?thesis using str_includes_append_right [OF str_includes_self, of y] by simp
  next
    case False
    with 3 have "str_includes (join sep (z # zs)) x" by simp
    then have "str_includes (y @ sep @ join sep (z # zs)) x"
      using str_includes_append_left [of "join sep (z # zs)" x "y @ sep"] by simp
    then show ?thesis by simp
  qed
qed


lemma occurrences_truthy:
  assumes "p \<noteq> []"
  shows "sum_list (map (\<lambda>x. occurrences x p) (map the (filter truthy cs)))
         = sum_list (map (occurrencesIn p) cs)"
  using assms by (induction cs) (auto simp: truthy_def occurrencesIn_def split: option.splits)

lemma occurrences_wrapped:
  "occurrences (''[0:a]'' @ s @ ''[a0]'') ''volume='' = occurrences s ''volume=''"
proof -
  have "occurrences (''[0:a'' @ CHR '']'' # (s @ CHR ''['' # ''a0]'')) ''volume=''
        = occurrences ''[0:a'' ''volume='' + occurrences (s @ CHR ''['' # ''a0]'') ''volume=''"
    by (rule occurrences_append_sep) simp_all
  also have "occurrences (s @ CHR ''['' # ''a0]'') ''volume=''
        = occurrences s ''volume='' + occurrences ''a0]'' ''volume=''"
    by (rule occurrences_append_sep) simp_all
  finally show ?thesis by simp
qed

lemma occurrences_half_volume:
  assumes "\<not> str_includes ev ''volume=''"
  shows "occurrences (''volume=0.5:eval='' @ ev) ''volume='' = 1"
  using assms by (simp add: str_includes_iff_occurrences)

lemma occurrencesIn_no_v:
  "CHR ''v'' \<notin> set s \<Longrightarrow> occurrencesIn ''volume='' (Some s) = 0"
  unfolding occurrencesIn_def option.case by (rule occurrences_none)

lemma occurrencesIn_toneClause:
  "occurrencesIn ''volume='' (toneClause x t) = 0"
proof (cases "toneClause x t")
  case None
  then show ?thesis by (simp add: occurrencesIn_def)
next
  case (Some s)
  then have "s = ''asetrate='' @ numberToString x @ ''*'' @ numberToString (the t) @
                 '',aresample='' @ numberToString x @ '',atempo=1/'' @ numberToString (the t)"
    by (auto simp: toneClause_def split: option.splits if_splits)
  then have "CHR ''v'' \<notin> set s" by (simp add: no_v_numberToString)
  then have "occurrences s ''volume='' = 0" by (rule occurrences_none)
  with Some show ?thesis by (simp add: occurrencesIn_def)
qed

lemma occurrencesIn_volumeClause:
  "occurrencesIn ''volume='' (volumeClause vol) =
     (if value_str vol = ''1'' then 0
      else occurrences (''volume='' @ value_str vol @ '':eval='' @ eval_str vol) ''volume='')"
  by (simp add: occurrencesIn_def volumeClause_def)

lemma occurrences_filter_str:
  assumes res: "stringifyFfmpegFilter im r = Inr (Some f)"
    and tt: "trimAndSetTempo (calculateATempo im) (playbackRate r) (trimLeft r) (trimRight r)
               (forSeamlessAacConcatenation r) (assetDuration r) = Inr tt"
    and vol: "vol = ffmpegVolumeExpression im (volume r) (fps r) (actualTrimLeft tt)
                      (allowAmplificationDuringRender r)"
    and tempo: "\<forall>t. calculateATempo im (playbackRate r) = Some t \<longrightarrow> \<not> str_includes t ''volume=''"
  shows "occurrences (filter_str f) ''volume='' = occurrencesIn ''volume='' (volumeClause vol)"
proof -
  let ?P = "''volume=''"
  let ?cs = "[Some (''aformat=sample_fmts=s32:sample_rates='' @
                     numberToString (DEFAULT_SAMPLE_RATE im))] @
              filter_parts tt @
              [volumeClause vol, toneClause (DEFAULT_SAMPLE_RATE im) (toneFrequency r)]"
  have fs: "filter_str f = ''[0:a]'' @ join '','' (map the (filter truthy ?cs)) @ ''[a0]''"
    using stringifyFfmpegFilter_fragment(3) [OF res tt] vol by simp
  have t0: "occurrencesIn ?P (calculateATempo im (playbackRate r)) = 0"
    using tempo by (auto simp: occurrencesIn_def str_includes_iff_occurrences split: option.splits)
  have parts: "sum_list (map (occurrencesIn ?P) (filter_parts tt)) = 0"
    using tt t0 unfolding trimAndSetTempo_Inr
    by (auto simp: occurrencesIn_no_v no_v_stringifyTrim split: if_splits)
  have "occurrences (filter_str f) ?P
        = occurrences (join '','' (map the (filter truthy ?cs))) ?P"
    unfolding fs by (rule occurrences_wrapped)
  also have "\<dots> = sum_list (map (\<lambda>x. occurrences x ?P) (map the (filter truthy ?cs)))"
    by (rule occurrences_join) simp_all
  also have "\<dots> = sum_list (map (occurrencesIn ?P) ?cs)"
    by (rule occurrences_truthy) simp
  also have "\<dots> = occurrencesIn ?P (volumeClause vol)"
    using parts by (simp add: occurrencesIn_no_v no_v_numberToString occurrencesIn_toneClause)
  finally show ?thesis .
qed

text \<open>
  C8. In every fragment the filter string contains \<^verbatim>\<open>volume=\<close> if and only if the value
  that \<^verbatim>\<open>ffmpegVolumeExpression\<close> returns is not the string \<^verbatim>\<open>1\<close>. When the value is
  \<^verbatim>\<open>1\<close>, \<^verbatim>\<open>volume=\<close> occurs nowhere; when it is \<^verbatim>\<open>0.5\<close>, \<^verbatim>\<open>volume=\<close> occurs exactly
  once, in \<^verbatim>\<open>volume=0.5:eval=\<close> followed by the evaluation mode. The tempo expression and
  the evaluation mode come from the imported functions and are taken not to contain
  \<^verbatim>\<open>volume=\<close> themselves.
\<close>

theorem volume_clause_iff:
  assumes res: "stringifyFfmpegFilter im r = Inr (Some f)"
    and tt: "trimAndSetTempo (calculateATempo im) (playbackRate r) (trimLeft r) (trimRight r)
               (forSeamlessAacConcatenation r) (assetDuration r) = Inr tt"
    and vol: "vol = ffmpegVolumeExpression im (volume r) (fps r) (actualTrimLeft tt)
                      (allowAmplificationDuringRender r)"
    and tempo: "\<forall>t. calculateATempo im (playbackRate r) = Some t \<longrightarrow> \<not> str_includes t ''volume=''"
  shows "(str_includes (filter_str f) ''volume='' \<longleftrightarrow> value_str vol \<noteq> ''1'') \<and>
         (value_str vol = ''1'' \<longrightarrow> occurrences (filter_str f) ''volume='' = 0) \<and>
         (value_str vol = ''0.5'' \<longrightarrow> \<not> str_includes (eval_str vol) ''volume='' \<longrightarrow>
            occurrences (filter_str f) ''volume='' = 1 \<and>
            str_includes (filter_str f) (''volume=0.5:eval='' @ eval_str vol))"
proof -
  let ?P = "''volume=''"
  have occ: "occurrences (filter_str f) ?P = occurrencesIn ?P (volumeClause vol)"
    using res tt vol tempo by (rule occurrences_filter_str)
  have 1: "str_includes (filter_str f) ?P \<longleftrightarrow> value_str vol \<noteq> ''1''"
    unfolding str_includes_iff_occurrences occ occurrencesIn_volumeClause by simp
  have 2: "occurrences (filter_str f) ?P = 0" if "value_str vol = ''1''"
    unfolding occ occurrencesIn_volumeClause using that by simp
  have 3: "occurrences (filter_str f) ?P = 1 \<and>
           str_includes (filter_str f) (''volume=0.5:eval='' @ eval_str vol)"
    if v: "value_str vol = ''0.5''" and ev: "\<not> str_includes (eval_str vol) ?P"
  proof
    show "occurrences (filter_str f) ?P = 1"
      unfolding occ occurrencesIn_volumeClause using v occurrences_half_volume [OF ev] by simp
    let ?c = "''volume=0.5:eval='' @ eval_str vol"
    let ?cs = "[Some (''aformat=sample_fmts=s32:sample_rates='' @
                     numberToString (DEFAULT_SAMPLE_RATE im))] @
              filter_parts tt @
              [volumeClause vol, toneClause (DEFAULT_SAMPLE_RATE im) (toneFrequency r)]"
    have fs: "filter_str f = ''[0:a]'' @ join '','' (map the (filter truthy ?cs)) @ ''[a0]''"
      using stringifyFfmpegFilter_fragment(3) [OF res tt] vol by simp
    have vc: "volumeClause vol = Some ?c" using v by (simp add: volumeClause_def)
    have "truthy (Some ?c)" by (simp add: truthy_def)
    then have "?c \<in> set (map the (filter truthy ?cs))"
      using vc by force
    then have "str_includes (join '','' (map the (filter truthy ?cs))) ?c"
      by (rule str_includes_join)
    then have "str_includes (''[0:a]'' @ join '','' (map the (filter truthy ?cs)) @ ''[a0]'') ?c"
      by (intro str_includes_append_left str_includes_append_right)
    then show "str_includes (filter_str f) ?c" unfolding fs .
  qed
  from 1 2 3 show ?thesis by blast
qed

lemma fl_zero: "fl 0 = Num 0"
  by (simp add: fl_def)

lemma fastRequest_composer:
  "trimAndSetTempo (calculateATempo exampleDeps) (playbackRate fastRequest)
     (trimLeft fastRequest) (trimRight fastRequest)
     (forSeamlessAacConcatenation fastRequest) (assetDuration fastRequest)
   = Inr fastTrimAndTempo"
  by (simp add: trimAndSetTempo_Inr fastRequest_def exampleRequest_def exampleDeps_def
      exampleTempo_def fastTrimAndTempo_def trimRightOrAssetDuration_def strictEquals_def
      sub_def divide_def fl_numeral stringifyTrim_0 stringifyTrim_10)

lemma fastRequest_result:
  "stringifyFfmpegFilter exampleDeps fastRequest = Inr (Some fastResult)"
  by (simp add: stringifyFfmpegFilter_def fastRequest_def exampleRequest_def exampleDeps_def
      exampleTempo_def exampleVolume_def fastResult_def trimAndSetTempo_def
      trimRightOrAssetDuration_def volumeClause_def toneClause_def padEnd_def padStart_def
      truthy_def strictEquals_def
      sub_def divide_def gt_def fl_numeral fl_tolerance fl_zero signedZero_def
      stringifyTrim_0 stringifyTrim_10 toString_48000)

theorem volume_clause_iff_witness:
  "stringifyFfmpegFilter exampleDeps fastRequest = Inr (Some fastResult) \<and>
   trimAndSetTempo (calculateATempo exampleDeps) (playbackRate fastRequest)
     (trimLeft fastRequest) (trimRight fastRequest)
     (forSeamlessAacConcatenation fastRequest) (assetDuration fastRequest)
     = Inr fastTrimAndTempo \<and>
   calculateATempo exampleDeps (playbackRate fastRequest) = Some ''atempo=2.00000'' \<and>
   \<not> str_includes ''atempo=2.00000'' ''volume='' \<and>
   ffmpegVolumeExpression exampleDeps (volume fastRequest) (fps fastRequest)
     (actualTrimLeft fastTrimAndTempo) (allowAmplificationDuringRender fastRequest)
     = \<lparr>value_str = ''0.5'', eval_str = ''once''\<rparr> \<and>
   \<not> str_includes ''once'' ''volume='' \<and>
   str_includes (filter_str fastResult) ''volume='' \<and>
   occurrences (filter_str fastResult) ''volume='' = 1 \<and>
   str_includes (filter_str fastResult) ''volume=0.5:eval=once''"
proof -
  have tempo: "calculateATempo exampleDeps (playbackRate fastRequest) = Some ''atempo=2.00000''"
    by (simp add: exampleDeps_def fastRequest_def exampleRequest_def exampleTempo_def
        strictEquals_def)
  have clean: "\<not> str_includes ''atempo=2.00000'' ''volume=''" by simp
  have vol: "\<lparr>value_str = ''0.5'', eval_str = ''once''\<rparr> =
      ffmpegVolumeExpression exampleDeps (volume fastRequest) (fps fastRequest)
        (actualTrimLeft fastTrimAndTempo) (allowAmplificationDuringRender fastRequest)"
    by (simp add: exampleDeps_def fastRequest_def exampleRequest_def exampleVolume_def)
  have ev: "\<not> str_includes ''once'' ''volume=''" by simp
  have hyp: "\<forall>t. calculateATempo exampleDeps (playbackRate fastRequest) = Some t \<longrightarrow>
               \<not> str_includes t ''volume=''"
    using tempo clean by simp
  note t = volume_clause_iff [OF fastRequest_result fastRequest_composer vol hyp]
  from t have "str_includes (filter_str fastResult) ''volume=''" by simp
  moreover from t ev have "occurrences (filter_str fastResult) ''volume='' = 1 \<and>
      str_includes (filter_str fastResult) ''volume=0.5:eval=once''" by simp
  ultimately show ?thesis
    using fastRequest_result fastRequest_composer tempo clean vol [symmetric] ev by simp
qed

section \<open>The time literal\<close>

lemma fl_micro: "fl (1 / 1000000) = Num (4722366482869645 / 4722366482869645213696)"
  by (subst fl_unfold [where t = "- 20"]) (simp_all add: roundHalfEven_def Let_def)

lemma lowerDigits_snd: "snd (lowerDigits x k) = ilog 10 x + 1"
  by (simp add: lowerDigits_def)

lemma upperDigits_cases:
  "snd (upperDigits x k) = ilog 10 x + 1 \<or> upperDigits x k = (10 ^ (k - 1), ilog 10 x + 2)"
  by (simp add: upperDigits_def lowerDigits_def Let_def)

lemma carry_value:
  assumes "1 \<le> k"
  shows "of_nat (10 ^ (k - 1)) * 10 powi (n + 1 - int k) = (10::rat) powi n"
proof -
  have a: "(of_nat (10 ^ (k - 1)) :: rat) = 10 powi (int k - 1)"
    using assms by (simp add: power_int_def nat_diff_distrib)
  have "(10::rat) powi ((int k - 1) + (n + 1 - int k)) = 10 powi (int k - 1) * 10 powi (n + 1 - int k)"
    by (rule power_int_add) simp
  moreover have "(int k - 1) + (n + 1 - int k) = n" by simp
  ultimately show ?thesis using a by simp
qed

lemma digitsAt_exponent:
  assumes "digitsAt x k = Some c" and "1 \<le> k"
  shows "snd c = ilog 10 x + 1 \<or> (snd c = ilog 10 x + 2 \<and> fl (10 powi (ilog 10 x + 1)) = Num x)"
proof -
  from assms(1) have "(c = lowerDigits x k) \<or> (c = upperDigits x k \<and> roundTrips x k (upperDigits x k))"
    by (auto simp: digitsAt_def Let_def split: if_splits)
  then show ?thesis
  proof
    assume "c = lowerDigits x k"
    then show ?thesis by (simp add: lowerDigits_snd)
  next
    assume c: "c = upperDigits x k \<and> roundTrips x k (upperDigits x k)"
    from upperDigits_cases [of x k] show ?thesis
    proof
      assume "snd (upperDigits x k) = ilog 10 x + 1"
      with c show ?thesis by simp
    next
      assume u: "upperDigits x k = (10 ^ (k - 1), ilog 10 x + 2)"
      with c have "fl (of_nat (10 ^ (k - 1)) * 10 powi (ilog 10 x + 2 - int k)) = Num x"
        by (simp add: roundTrips_def)
      moreover have "of_nat (10 ^ (k - 1)) * 10 powi (ilog 10 x + 2 - int k) = (10::rat) powi (ilog 10 x + 1)"
        using carry_value [OF assms(2), of "ilog 10 x + 1"] by (simp add: algebra_simps)
      ultimately show ?thesis using c u by simp
    qed
  qed
qed

lemma shortestDigits_exponent:
  assumes "shortestDigits x k = (s, n, k')" and "1 \<le> k"
  shows "n = ilog 10 x + 1 \<or> (n = ilog 10 x + 2 \<and> fl (10 powi (ilog 10 x + 1)) = Num x)"
  using assms
proof (induction x k rule: shortestDigits.induct)
  case (1 x k)
  show ?case
  proof (cases "digitsAt x k")
    case (Some c)
    with "1.prems" have "n = snd c" by (simp add: shortestDigits.simps [of x k])
    with digitsAt_exponent [OF Some "1.prems"(2)] show ?thesis by simp
  next
    case None
    show ?thesis
    proof (cases "k < 17")
      case True
      with None "1.prems" have "shortestDigits x (Suc k) = (s, n, k')"
        by (simp add: shortestDigits.simps [of x k])
      with "1.IH" [OF None True] show ?thesis by simp
    next
      case False
      with None "1.prems" have "n = snd (lowerDigits x k)"
        by (auto simp: shortestDigits.simps [of x k])
      then show ?thesis by (simp add: lowerDigits_snd)
    qed
  qed
qed

lemma small_exponent:
  assumes x: "0 < x" "x < 4722366482869645 / 4722366482869645213696"
    and sd: "shortestDigits x 1 = (s, n, k)"
  shows "n \<le> - 6"
proof -
  define L where "L = ilog 10 x"
  have "10 powi L \<le> x" using ilog_bounds [of 10 x] x(1) by (simp add: L_def)
  also have "x < 10 powi (- 6)" using x(2) by simp
  finally have "L < - 6" by (intro powi_less_imp_less [of 10]) simp_all
  from shortestDigits_exponent [OF sd]
  have "n = L + 1 \<or> (n = L + 2 \<and> fl (10 powi (L + 1)) = Num x)" by (simp add: L_def)
  then show ?thesis
  proof
    assume "n = L + 1"
    with \<open>L < - 6\<close> show ?thesis by simp
  next
    assume c: "n = L + 2 \<and> fl (10 powi (L + 1)) = Num x"
    show ?thesis
    proof (cases "L = - 7")
      case True
      with c have "fl (1 / 1000000) = Num x" by simp
      with x(2) show ?thesis by (simp add: fl_micro)
    next
      case False
      with \<open>L < - 6\<close> c show ?thesis by simp
    qed
  qed
qed

lemma exponent_marker: "str_includes (a @ ''e'' @ ''-'' @ b) ''e-''"
  using str_includes_append_left [of "''e-'' @ b" "''e-''" a] str_includes_append_right [of "''e-''" "''e-''" b]
  by simp

lemma positiveToString_small:
  assumes "0 < x" and "x < 4722366482869645 / 4722366482869645213696"
  shows "str_includes (positiveToString x) ''e-''"
proof -
  obtain s n k where sd: "shortestDigits x 1 = (s, n, k)" by (cases "shortestDigits x 1")
  have n: "n \<le> - 6" using assms sd by (rule small_exponent)
  show ?thesis
  proof (cases "k = 1")
    case True
    with n sd have "positiveToString x = digitsOfNat s @ ''e'' @ ''-'' @ digitsOfNat (nat \<bar>n - 1\<bar>)"
      by (simp add: positiveToString_def Let_def)
    then show ?thesis using exponent_marker by simp
  next
    case False
    with n sd have "positiveToString x =
        (take 1 (digitsOfNat s) @ ''.'' @ drop 1 (digitsOfNat s)) @ ''e'' @ ''-'' @ digitsOfNat (nat \<bar>n - 1\<bar>)"
      by (simp add: positiveToString_def Let_def)
    then show ?thesis
      using exponent_marker [of "take 1 (digitsOfNat s) @ ''.'' @ drop 1 (digitsOfNat s)"
          "digitsOfNat (nat \<bar>n - 1\<bar>)"]
      by simp
  qed
qed

lemma numberToString_small:
  assumes "v \<noteq> 0" and "\<bar>v\<bar> < 4722366482869645 / 4722366482869645213696"
  shows "str_includes (numberToString (Num v)) ''e-''"
proof (cases "v < 0")
  case True
  then have "str_includes (positiveToString (- v)) ''e-''"
    using assms by (intro positiveToString_small) simp_all
  then have "str_includes (''-'' @ positiveToString (- v)) ''e-''"
    by (rule str_includes_append_left)
  with True show ?thesis by simp
next
  case False
  then have "str_includes (positiveToString v) ''e-''"
    using assms by (intro positiveToString_small) simp_all
  with False assms(1) show ?thesis by simp
qed

lemma fl_half_micro: "fl (1 / 2000000) = Num (4722366482869645 / 9444732965739290427392)"
  by (subst fl_unfold [where t = "- 21"]) (simp_all add: roundHalfEven_def Let_def)

lemma mul_half_micro: "mul (fl (1 / 2000000)) (Num 1000000) = Num (1 / 2)"
  unfolding fl_half_micro mul_def
  by (simp, subst fl_unfold [where t = "- 2"]) (simp_all add: roundHalfEven_def Let_def)

lemma fl_half: "fl (1 / 2) = Num (1 / 2)"
  using fl_exact [where m = 1 and e = "- 1" and q = "1 / 2"] by simp

lemma fl_three_fifths: "fl (3 / 5) \<noteq> Num (1 / 2)"
  by (subst fl_unfold [where t = "- 1"]) (simp_all add: roundHalfEven_def Let_def)

lemma ilog10_half: "ilog 10 (1 / 2) = - 1"
  by (rule ilog_unique) simp_all

lemma digitsAt_half: "digitsAt (1 / 2) (Suc 0) = Some (5, 0)"
  by (simp add: digitsAt_def lowerDigits_def upperDigits_def roundTrips_def ilog10_half
      fl_half fl_three_fifths Let_def)

lemma toString_half: "positiveToString (1 / 2) = ''0.5''"
  using shortestDigits_found [OF digitsAt_half]
  by (simp add: positiveToString_def digitsOfNat.simps digitChar_def)

text \<open>
  C2, as stated, fails: the stringifier looks at the microsecond value
  \<^verbatim>\<open>trim * 1_000_000\<close>, and only a value that prints with a negative exponent becomes
  \<^verbatim>\<open>0us\<close>. A duration of \<^verbatim>\<open>5e-7\<close> seconds, of magnitude below \<^verbatim>\<open>1e-6\<close>, has the
  microsecond value \<^verbatim>\<open>0.5\<close> and is written \<^verbatim>\<open>0.5us\<close>.
\<close>

theorem stringifyTrim_below_micro_counterexample:
  "lt (neg (fl (1 / 1000000))) (fl (5 / 10000000)) \<and>
   lt (fl (5 / 10000000)) (fl (1 / 1000000)) \<and>
   stringifyTrim (fl (5 / 10000000)) = ''0.5us'' \<and>
   stringifyTrim (fl (5 / 10000000)) \<noteq> ''0us''"
proof -
  have "stringifyTrim (fl (5 / 10000000)) = ''0.5us''"
    by (simp add: stringifyTrim_def mul_half_micro toString_half)
  moreover have "lt (neg (fl (1 / 1000000))) (fl (5 / 10000000))"
    and "lt (fl (5 / 10000000)) (fl (1 / 1000000))"
    by (simp_all add: fl_half_micro fl_micro)
  ultimately show ?thesis by simp
qed

lemma stringifyTrim_zero_value:
  assumes lo: "lt (neg (fl (1 / 1000000))) (mul trim (Num 1000000))"
    and hi: "lt (mul trim (Num 1000000)) (fl (1 / 1000000))"
  shows "stringifyTrim trim = ''0us''"
proof (cases "mul trim (Num 1000000)")
  case NaN
  with hi show ?thesis by simp
next
  case PosInf
  with hi show ?thesis by (simp add: fl_micro)
next
  case NegInf
  with lo show ?thesis by (simp add: fl_micro)
next
  case NegZero
  then show ?thesis by (simp add: stringifyTrim_def)
next
  case (Num v)
  show ?thesis
  proof (cases "v = 0")
    case True
    with Num show ?thesis by (simp add: stringifyTrim_def)
  next
    case False
    from lo hi Num have "\<bar>v\<bar> < 4722366482869645 / 4722366482869645213696"
      by (simp add: fl_micro)
    with False have "str_includes (numberToString (Num v)) ''e-''"
      by (rule numberToString_small)
    then have "str_includes (numberToString (Num v) @ ''us'') ''e-''"
      by (rule str_includes_append_right)
    with Num show ?thesis by (simp add: stringifyTrim_def)
  qed
qed

lemma stringifyTrim_tiny:
  assumes "\<bar>t\<bar> \<le> 9 / 10000000000000"
  shows "stringifyTrim (Num t) = ''0us''"
proof (cases "t = 0")
  case True
  then show ?thesis by (simp add: stringifyTrim_def mul_def signedZero_def)
next
  case False
  have "\<bar>t * 1000000\<bar> \<le> 9 / 10000000" using assms by (simp add: abs_mult)
  then obtain v where v: "fl (t * 1000000) = Num v \<or> (fl (t * 1000000) = NegZero \<and> v = 0)"
    and small: "\<bar>v\<bar> < 4722366482869645 / 4722366482869645213696"
    using fl_magnitude by blast
  have m: "mul (Num t) (Num 1000000) = fl (t * 1000000)"
    using False by (simp add: mul_def)
  show ?thesis
  proof (rule stringifyTrim_zero_value)
    show "lt (neg (fl (1 / 1000000))) (mul (Num t) (Num 1000000))"
      using v small unfolding m by (auto simp: fl_micro)
    show "lt (mul (Num t) (Num 1000000)) (fl (1 / 1000000))"
      using v small unfolding m by (auto simp: fl_micro)
  qed
qed

text \<open>
  C2, amended. The stringifier returns \<^verbatim>\<open>0us\<close> for every duration whose microsecond
  value \<^verbatim>\<open>trim * 1_000_000\<close> lies strictly between \<^verbatim>\<open>-1e-6\<close> and \<^verbatim>\<open>1e-6\<close>, so for
  every finite duration of magnitude at most \<^verbatim>\<open>9e-13\<close> seconds; and equal durations are
  written alike.
\<close>

theorem stringifyTrim_zero_literal:
  "(lt (neg (fl (1 / 1000000))) (mul trim (Num 1000000)) \<longrightarrow>
    lt (mul trim (Num 1000000)) (fl (1 / 1000000)) \<longrightarrow> stringifyTrim trim = ''0us'') \<and>
   (\<forall>t. trim = Num t \<longrightarrow> \<bar>t\<bar> \<le> 9 / 10000000000000 \<longrightarrow> stringifyTrim trim = ''0us'') \<and>
   (\<forall>other. other = trim \<longrightarrow> stringifyTrim other = stringifyTrim trim)"
  using stringifyTrim_zero_value [of trim] stringifyTrim_tiny by auto

lemma fl_six_tenths_pico:
  "fl (3 / 5000000000000) = Num (5942112188569825 / 9903520314283042199192993792)"
  by (subst fl_unfold [where t = "- 41"]) (simp_all add: roundHalfEven_def Let_def)

lemma mul_six_tenths_pico:
  "mul (fl (3 / 5000000000000)) (Num 1000000) = Num (2833419889721787 / 4722366482869645213696)"
  unfolding fl_six_tenths_pico mul_def
  by (simp, subst fl_unfold [where t = "- 21"]) (simp_all add: roundHalfEven_def Let_def)

theorem stringifyTrim_zero_literal_witness:
  "lt (neg (fl (1 / 1000000))) (mul (fl (6 / 10000000000000)) (Num 1000000)) \<and>
   lt (mul (fl (6 / 10000000000000)) (Num 1000000)) (fl (1 / 1000000)) \<and>
   stringifyTrim (fl (6 / 10000000000000)) = ''0us'' \<and>
   \<bar>1 / 2199023255552 :: rat\<bar> \<le> 9 / 10000000000000 \<and>
   stringifyTrim (Num (1 / 2199023255552)) = ''0us''"
proof -
  have lo: "lt (neg (fl (1 / 1000000))) (mul (fl (6 / 10000000000000)) (Num 1000000))"
    by (simp add: mul_six_tenths_pico fl_micro)
  have hi: "lt (mul (fl (6 / 10000000000000)) (Num 1000000)) (fl (1 / 1000000))"
    by (simp add: mul_six_tenths_pico fl_micro)
  have t: "\<bar>1 / 2199023255552 :: rat\<bar> \<le> 9 / 10000000000000" by simp
  have "stringifyTrim (fl (6 / 10000000000000)) = ''0us''"
    using stringifyTrim_zero_literal [of "fl (6 / 10000000000000)"] lo hi by blast
  moreover have "stringifyTrim (Num (1 / 2199023255552)) = ''0us''"
    using stringifyTrim_zero_literal [of "Num (1 / 2199023255552)"] t by blast
  ultimately show ?thesis using lo hi t by blast
qed

section \<open>The audible duration in the two modes\<close>

lemma fl_Num_error:
  assumes "fl q = Num r"
  shows "\<bar>r - q\<bar> \<le> 2 powi (- 53) * \<bar>q\<bar> + 2 powi (- 1075)"
  using fl_error [of q] assms by simp

lemma approx_divide:
  assumes "0 < c" and "divide (Num x) (Num c) = Num y"
  shows "\<bar>y - x / c\<bar> \<le> 2 powi (- 53) * \<bar>x / c\<bar> + 2 powi (- 1075)"
proof (cases "x = 0")
  case True
  with assms show ?thesis by (simp add: divide_def signedZero_def)
next
  case False
  with assms have "fl (x / c) = Num y" by (simp add: divide_def)
  then show ?thesis by (rule fl_Num_error)
qed

lemma approx_sub:
  assumes "sub (Num x) (Num y) = Num z"
  shows "\<bar>z - (x - y)\<bar> \<le> 2 powi (- 53) * \<bar>x - y\<bar> + 2 powi (- 1075)"
proof (cases "y = 0")
  case True
  with assms show ?thesis by (simp add: sub_def)
next
  case False
  with assms have "fl (x - y) = Num z" by (simp add: sub_def)
  then show ?thesis by (rule fl_Num_error)
qed

lemma sub_Num_only:
  assumes "sub x y = Num z" and "x \<noteq> NegZero" and "y \<noteq> NegZero"
  shows "\<exists>x' y'. x = Num x' \<and> y = Num y'"
  using assms by (cases x; cases y) (auto simp: sub_def split: if_splits)

lemma divide_Num_only:
  assumes "divide x (Num c) = Num z" and "0 < c" and "x \<noteq> NegZero"
  shows "\<exists>x'. x = Num x'"
  using assms by (cases x) (simp_all add: divide_def signedInf_def signedZero_def)

lemma divide_not_NegZero:
  assumes "0 < c" and "0 \<le> x"
  shows "divide (Num x) (Num c) \<noteq> NegZero"
proof (cases "x = 0")
  case True
  then show ?thesis using assms by (simp add: divide_def signedZero_def)
next
  case False
  with assms have "0 < x / c" by simp
  then have "fl (x / c) \<noteq> NegZero"
    by (auto simp: fl_def Let_def)
  with False assms show ?thesis by (simp add: divide_def)
qed

lemma sub_not_NegZero: "sub (Num x) (Num y) \<noteq> NegZero" if "y \<le> x"
proof (cases "y = 0")
  case True
  then show ?thesis by (simp add: sub_def)
next
  case False
  have "fl (x - y) \<noteq> NegZero" using that by (auto simp: fl_def Let_def)
  with False show ?thesis by (simp add: sub_def)
qed

lemma no_clamp:
  assumes "case ad of None \<Rightarrow> True | Some d \<Rightarrow> le (Num b) d"
  shows "trimRightOrAssetDuration (Num b) ad = Num b"
proof (cases ad)
  case None
  then show ?thesis by (simp add: trimRightOrAssetDuration_def)
next
  case (Some d)
  with assms have le: "le (Num b) d" by simp
  show ?thesis
  proof (cases "toBoolean d")
    case False
    with Some show ?thesis by (simp add: trimRightOrAssetDuration_def)
  next
    case True
    with le have "Math_min (Num b) d = Num b"
      by (cases d) (auto simp: Math_min_def le_def toBoolean_def)
    with Some True show ?thesis by (simp add: trimRightOrAssetDuration_def)
  qed
qed


lemma seamless_error:
  fixes u eta :: rat
  assumes u: "0 \<le> u" "u \<le> 1 / 4" and eta: "0 \<le> eta"
    and A: "0 \<le> A" and AB: "A \<le> B"
    and x: "\<bar>x - B\<bar> \<le> u * \<bar>B\<bar> + eta"
    and y: "\<bar>y - A\<bar> \<le> u * \<bar>A\<bar> + eta"
    and s: "\<bar>s - (x - y)\<bar> \<le> u * \<bar>x - y\<bar> + eta"
  shows "\<bar>s - (B - A)\<bar> \<le> 4 * u * (A + B) + 4 * eta"
proof -
  define U where "U = u * (A + B)"
  have B: "0 \<le> B" using A AB by simp
  have U: "u * \<bar>A\<bar> + u * \<bar>B\<bar> = U" using A B by (simp add: U_def algebra_simps)
  have U0: "0 \<le> U" using u A B by (simp add: U_def)
  have xy: "\<bar>x - y\<bar> \<le> (B - A) + U + 2 * eta" using x y U AB by linarith
  have "u * \<bar>x - y\<bar> \<le> U + 1 / 4 * U + 1 / 2 * eta"
  proof -
    have "u * \<bar>x - y\<bar> \<le> u * (B - A) + u * U + 2 * (u * eta)"
      using mult_left_mono [OF xy u(1)] by (simp add: algebra_simps)
    moreover have "u * (B - A) \<le> u * (A + B)" using u(1) A by (intro mult_left_mono) simp_all
    moreover have "u * U \<le> 1 / 4 * U" using u(2) U0 by (intro mult_right_mono)
    moreover have "u * eta \<le> 1 / 4 * eta" using u(2) eta by (intro mult_right_mono)
    ultimately show ?thesis unfolding U_def by linarith
  qed
  then have "\<bar>s - (B - A)\<bar> \<le> 4 * U + 4 * eta"
    using s x y U U0 eta by linarith
  then show ?thesis by (simp add: U_def)
qed

lemma default_error:
  fixes u eta :: rat
  assumes u: "0 \<le> u" "u \<le> 1 / 4" and eta: "0 \<le> eta" and c: "0 < c"
    and A: "0 \<le> A" and AB: "A \<le> B"
    and v: "\<bar>v - (B - A) * c\<bar> \<le> u * \<bar>(B - A) * c\<bar> + eta"
    and d: "\<bar>d - v / c\<bar> \<le> u * \<bar>v / c\<bar> + eta"
  shows "\<bar>d - (B - A)\<bar> \<le> 4 * u * (A + B) + 4 * eta * (1 + 1 / c)"
proof -
  define D where "D = B - A"
  define U where "U = u * (A + B)"
  define E where "E = eta / c"
  have D0: "0 \<le> D" using AB by (simp add: D_def)
  have E0: "0 \<le> E" using eta c by (simp add: E_def)
  have U0: "0 \<le> U" using u A AB by (simp add: U_def)
  have uD: "u * D \<le> U" unfolding U_def D_def using u(1) A by (intro mult_left_mono) simp_all
  have uD0: "0 \<le> u * D" using u(1) D0 by simp
  have "\<bar>v - D * c\<bar> / c \<le> (u * \<bar>D * c\<bar> + eta) / c"
    using v c unfolding D_def by (intro divide_right_mono) simp_all
  moreover have "\<bar>v - D * c\<bar> / c = \<bar>v / c - D\<bar>"
  proof -
    have "v / c - D = (v - D * c) / c" using c by (simp add: field_simps)
    then show ?thesis using c by (simp add: abs_divide)
  qed
  moreover have "(u * \<bar>D * c\<bar> + eta) / c = u * D + E"
    using c D0 by (simp add: E_def abs_mult field_simps)
  ultimately have vc: "\<bar>v / c - D\<bar> \<le> u * D + E" by simp
  then have avc: "\<bar>v / c\<bar> \<le> D + u * D + E" using D0 by linarith
  have "u * \<bar>v / c\<bar> \<le> u * (D + u * D + E)"
    using avc u(1) by (rule mult_left_mono)
  also have "\<dots> = u * D + u * (u * D) + u * E" by (simp add: algebra_simps)
  finally have 1: "u * \<bar>v / c\<bar> \<le> u * D + u * (u * D) + u * E" .
  have 2: "u * (u * D) \<le> 1 / 4 * (u * D)" using u(2) uD0 by (intro mult_right_mono)
  have 3: "u * E \<le> 1 / 4 * E" using u(2) E0 by (intro mult_right_mono)
  have "\<bar>d - D\<bar> \<le> 4 * U + 4 * eta + 4 * E"
    using d vc 1 2 3 uD uD0 E0 eta U0 by linarith
  moreover have "4 * eta + 4 * E = 4 * eta * (1 + 1 / c)"
    by (simp add: E_def algebra_simps)
  ultimately show ?thesis by (simp add: U_def D_def)
qed

text \<open>
  C1, amended. For finite \<^verbatim>\<open>trimLeft >= 0\<close>, \<^verbatim>\<open>trimRight >= trimLeft\<close> and
  \<^verbatim>\<open>playbackRate > 0\<close>, with \<^verbatim>\<open>trimRight\<close> not above a known \<^verbatim>\<open>assetDuration\<close>, the
  \<^verbatim>\<open>audibleDuration\<close> is \<^verbatim>\<open>trimRight / playbackRate - trimLeft / playbackRate\<close> in
  seamless mode and \<^verbatim>\<open>(trimRight - trimLeft) / playbackRate\<close> in default mode, each
  operation rounded to a double. When the results are finite, each lies within
  \<open>2 powi (- 51) * (trimLeft + trimRight) / playbackRate + 2 powi (- 1073) * (1 + 1 / playbackRate)\<close>
  of the exact quotient \<open>(trimRight - trimLeft) / playbackRate\<close>: the modes agree up to
  rounding.
\<close>

theorem audibleDuration_up_to_rounding:
  assumes x: "map_sum id audibleDuration
                (trimAndSetTempo atempo (Num c) (Num a) (Num b) True ad) = Inr (Num x)"
    and y: "map_sum id audibleDuration
                (trimAndSetTempo atempo (Num c) (Num a) (Num b) False ad) = Inr (Num y)"
    and a: "0 \<le> a" and ab: "a \<le> b" and c: "0 < c"
    and clamp: "case ad of None \<Rightarrow> True | Some dur \<Rightarrow> le (Num b) dur"
  shows "Num x = sub (divide (Num b) (Num c)) (divide (Num a) (Num c)) \<and>
         Num y = divide (sub (Num b) (Num a)) (Num c) \<and>
         \<bar>x - (b - a) / c\<bar> \<le> 2 powi (- 51) * ((a + b) / c) + 2 powi (- 1073) * (1 + 1 / c) \<and>
         \<bar>y - (b - a) / c\<bar> \<le> 2 powi (- 51) * ((a + b) / c) + 2 powi (- 1073) * (1 + 1 / c)"
proof -
  define u :: rat where "u = 2 powi (- 53)"
  define eta :: rat where "eta = 2 powi (- 1075)"
  have u: "0 \<le> u" "u \<le> 1 / 4" and eta: "0 \<le> eta" by (simp_all add: u_def eta_def)
  have u4: "4 * u = 2 powi (- 51)" by (simp add: u_def)
  have eta4: "4 * eta = 2 powi (- 1073)" by (simp add: eta_def)
  have A: "0 \<le> a / c" and AB: "a / c \<le> b / c"
    using a ab c by (simp_all add: divide_right_mono)
  have right: "trimRightOrAssetDuration (Num b) ad = Num b"
    using clamp by (rule no_clamp)
  have sd: "Num x = sub (divide (Num b) (Num c)) (divide (Num a) (Num c))"
    using x unfolding trimAndSetTempo_Inr right by simp
  have pd: "Num y = divide (sub (Num b) (Num a)) (Num c)"
    using y unfolding trimAndSetTempo_Inr right by simp
  have xb: "\<bar>x - (b / c - a / c)\<bar> \<le> 4 * u * (a / c + b / c) + 4 * eta"
  proof -
    have "divide (Num b) (Num c) \<noteq> NegZero" "divide (Num a) (Num c) \<noteq> NegZero"
      using a ab c by (simp_all add: divide_not_NegZero)
    with sd obtain x' y' where q: "divide (Num b) (Num c) = Num x'" "divide (Num a) (Num c) = Num y'"
      using sub_Num_only [of "divide (Num b) (Num c)" "divide (Num a) (Num c)" x] by auto
    have 1: "\<bar>x' - b / c\<bar> \<le> u * \<bar>b / c\<bar> + eta"
      unfolding u_def eta_def using c q(1) by (rule approx_divide)
    have 2: "\<bar>y' - a / c\<bar> \<le> u * \<bar>a / c\<bar> + eta"
      unfolding u_def eta_def using c q(2) by (rule approx_divide)
    have "sub (Num x') (Num y') = Num x" using sd q by simp
    then have 3: "\<bar>x - (x' - y')\<bar> \<le> u * \<bar>x' - y'\<bar> + eta"
      unfolding u_def eta_def by (rule approx_sub)
    from u eta A AB 1 2 3 show ?thesis by (rule seamless_error)
  qed
  have yb: "\<bar>y - (b / c - a / c)\<bar> \<le> 4 * u * (a / c + b / c) + 4 * eta * (1 + 1 / c)"
  proof -
    have "sub (Num b) (Num a) \<noteq> NegZero" using ab by (rule sub_not_NegZero)
    with pd c obtain v where v: "sub (Num b) (Num a) = Num v"
      using divide_Num_only [of "sub (Num b) (Num a)" c y] by auto
    have "(b / c - a / c) * c = b - a" using c by (simp add: field_simps)
    moreover have "\<bar>v - (b - a)\<bar> \<le> u * \<bar>b - a\<bar> + eta"
      unfolding u_def eta_def using v by (rule approx_sub)
    ultimately have 1: "\<bar>v - (b / c - a / c) * c\<bar> \<le> u * \<bar>(b / c - a / c) * c\<bar> + eta"
      by simp
    have "divide (Num v) (Num c) = Num y" using pd v by simp
    then have 2: "\<bar>y - v / c\<bar> \<le> u * \<bar>v / c\<bar> + eta"
      unfolding u_def eta_def using c by (intro approx_divide)
    from u eta c A AB 1 2 show ?thesis by (rule default_error)
  qed
  have diff: "b / c - a / c = (b - a) / c" and sum: "a / c + b / c = (a + b) / c"
    by (simp_all add: diff_divide_distrib add_divide_distrib)
  have e1: "4 * eta \<le> 4 * eta * (1 + 1 / c)"
  proof -
    have "4 * eta * 1 \<le> 4 * eta * (1 + 1 / c)"
      using eta c by (intro mult_left_mono) simp_all
    then show ?thesis by simp
  qed
  have "\<bar>x - (b - a) / c\<bar> \<le> 2 powi (- 51) * ((a + b) / c) + 2 powi (- 1073) * (1 + 1 / c)"
    using xb e1 unfolding diff sum u4 eta4 by linarith
  moreover
  have "\<bar>y - (b - a) / c\<bar> \<le> 2 powi (- 51) * ((a + b) / c) + 2 powi (- 1073) * (1 + 1 / c)"
    using yb unfolding diff sum u4 eta4 .
  ultimately show ?thesis using sd pd by blast
qed


lemma fl_two_fifths: "fl (2 / 5) = Num (3602879701896397 / 9007199254740992)"
  by (subst fl_unfold [where t = "- 2"]) (simp_all add: roundHalfEven_def Let_def)

lemma fl_tenth: "fl (1 / 10) = Num (3602879701896397 / 36028797018963968)"
  by (subst fl_unfold [where t = "- 4"]) (simp_all add: roundHalfEven_def Let_def)

lemma fl_three_tenths: "fl (3 / 10) = Num (5404319552844595 / 18014398509481984)"
  by (subst fl_unfold [where t = "- 2"]) (simp_all add: roundHalfEven_def Let_def)

lemma fl_difference:
  "fl (10808639105689191 / 36028797018963968) = Num (1351079888211149 / 4503599627370496)"
  by (subst fl_unfold [where t = "- 2"]) (simp_all add: roundHalfEven_def Let_def)

lemma roundHalfEven_floor:
  "\<lfloor>y\<rfloor> \<le> roundHalfEven y \<and> roundHalfEven y \<le> \<lfloor>y\<rfloor> + 1"
  by (simp add: roundHalfEven_def Let_def)

lemma fl_quarter_to_half:
  assumes "1 / 4 \<le> q" and "q < 1 / 2"
  shows "fl q = Num (of_int (roundHalfEven (q * 18014398509481984)) / 18014398509481984)"
proof -
  define y where "y = q * 18014398509481984"
  have q: "q \<noteq> 0" "\<bar>q\<bar> = q" using assms by simp_all
  have y: "4503599627370496 \<le> y" "y < 9007199254740992" using assms by (simp_all add: y_def)
  have "4503599627370496 \<le> \<lfloor>y\<rfloor>" using y(1) by (simp add: le_floor_iff)
  then have m: "0 < roundHalfEven y" using roundHalfEven_floor [of y] by linarith
  have "\<lfloor>y\<rfloor> < 9007199254740992" using y(2) by (simp add: floor_less_iff)
  then have "roundHalfEven y \<le> 9007199254740992" using roundHalfEven_floor [of y] by linarith
  then have "rat_of_int (roundHalfEven y) \<le> 9007199254740992"
    by (metis of_int_le_iff of_int_numeral)
  then have fin: "\<not> 2 powi 1024 \<le> rat_of_int (roundHalfEven y) / 18014398509481984"
    by simp
  show ?thesis
    using q m fin assms unfolding y_def
    by (subst fl_unfold [where t = "- 2"]) (simp_all add: Let_def)
qed

lemma ilog10_seamless: "ilog 10 (1351079888211149 / 4503599627370496) = - 1"
  by (rule ilog_unique) simp_all

lemma seamless_digits_1: "digitsAt (1351079888211149 / 4503599627370496) (Suc (0)) = None"
  by (simp add: digitsAt_def lowerDigits_def upperDigits_def roundTrips_def ilog10_seamless
      fl_quarter_to_half roundHalfEven_def Let_def)

lemma seamless_digits_2: "digitsAt (1351079888211149 / 4503599627370496) (Suc (Suc (0))) = None"
  by (simp add: digitsAt_def lowerDigits_def upperDigits_def roundTrips_def ilog10_seamless
      fl_quarter_to_half roundHalfEven_def Let_def)

lemma seamless_digits_3: "digitsAt (1351079888211149 / 4503599627370496) (Suc (Suc (Suc (0)))) = None"
  by (simp add: digitsAt_def lowerDigits_def upperDigits_def roundTrips_def ilog10_seamless
      fl_quarter_to_half roundHalfEven_def Let_def)

lemma seamless_digits_4: "digitsAt (1351079888211149 / 4503599627370496) (Suc (Suc (Suc (Suc (0))))) = None"
  by (simp add: digitsAt_def lowerDigits_def upperDigits_def roundTrips_def ilog10_seamless
      fl_quarter_to_half roundHalfEven_def Let_def)

lemma seamless_digits_5: "digitsAt (1351079888211149 / 4503599627370496) (Suc (Suc (Suc (Suc (Suc (0)))))) = None"
  by (simp add: digitsAt_def lowerDigits_def upperDigits_def roundTrips_def ilog10_seamless
      fl_quarter_to_half roundHalfEven_def Let_def)

lemma seamless_digits_6: "digitsAt (1351079888211149 / 4503599627370496) (Suc (Suc (Suc (Suc (Suc (Suc (0))))))) = None"
  by (simp add: digitsAt_def lowerDigits_def upperDigits_def roundTrips_def ilog10_seamless
      fl_quarter_to_half roundHalfEven_def Let_def)

lemma seamless_digits_7: "digitsAt (1351079888211149 / 4503599627370496) (Suc (Suc (Suc (Suc (Suc (Suc (Suc (0)))))))) = None"
  by (simp add: digitsAt_def lowerDigits_def upperDigits_def roundTrips_def ilog10_seamless
      fl_quarter_to_half roundHalfEven_def Let_def)

lemma seamless_digits_8: "digitsAt (1351079888211149 / 4503599627370496) (Suc (Suc (Suc (Suc (Suc (Suc (Suc (Suc (0))))))))) = None"
  by (simp add: digitsAt_def lowerDigits_def upperDigits_def roundTrips_def ilog10_seamless
      fl_quarter_to_half roundHalfEven_def Let_def)

lemma seamless_digits_9: "digitsAt (1351079888211149 / 4503599627370496) (Suc (Suc (Suc (Suc (Suc (Suc (Suc (Suc (Suc (0)))))))))) = None"
  by (simp add: digitsAt_def lowerDigits_def upperDigits_def roundTrips_def ilog10_seamless
      fl_quarter_to_half roundHalfEven_def Let_def)

lemma seamless_digits_10: "digitsAt (1351079888211149 / 4503599627370496) (Suc (Suc (Suc (Suc (Suc (Suc (Suc (Suc (Suc (Suc (0))))))))))) = None"
  by (simp add: digitsAt_def lowerDigits_def upperDigits_def roundTrips_def ilog10_seamless
      fl_quarter_to_half roundHalfEven_def Let_def)

lemma seamless_digits_11: "digitsAt (1351079888211149 / 4503599627370496) (Suc (Suc (Suc (Suc (Suc (Suc (Suc (Suc (Suc (Suc (Suc (0)))))))))))) = None"
  by (simp add: digitsAt_def lowerDigits_def upperDigits_def roundTrips_def ilog10_seamless
      fl_quarter_to_half roundHalfEven_def Let_def)

lemma seamless_digits_12: "digitsAt (1351079888211149 / 4503599627370496) (Suc (Suc (Suc (Suc (Suc (Suc (Suc (Suc (Suc (Suc (Suc (Suc (0))))))))))))) = None"
  by (simp add: digitsAt_def lowerDigits_def upperDigits_def roundTrips_def ilog10_seamless
      fl_quarter_to_half roundHalfEven_def Let_def)

lemma seamless_digits_13: "digitsAt (1351079888211149 / 4503599627370496) (Suc (Suc (Suc (Suc (Suc (Suc (Suc (Suc (Suc (Suc (Suc (Suc (Suc (0)))))))))))))) = None"
  by (simp add: digitsAt_def lowerDigits_def upperDigits_def roundTrips_def ilog10_seamless
      fl_quarter_to_half roundHalfEven_def Let_def)

lemma seamless_digits_14: "digitsAt (1351079888211149 / 4503599627370496) (Suc (Suc (Suc (Suc (Suc (Suc (Suc (Suc (Suc (Suc (Suc (Suc (Suc (Suc (0))))))))))))))) = None"
  by (simp add: digitsAt_def lowerDigits_def upperDigits_def roundTrips_def ilog10_seamless
      fl_quarter_to_half roundHalfEven_def Let_def)

lemma seamless_digits_15: "digitsAt (1351079888211149 / 4503599627370496) (Suc (Suc (Suc (Suc (Suc (Suc (Suc (Suc (Suc (Suc (Suc (Suc (Suc (Suc (Suc (0)))))))))))))))) = None"
  by (simp add: digitsAt_def lowerDigits_def upperDigits_def roundTrips_def ilog10_seamless
      fl_quarter_to_half roundHalfEven_def Let_def)

lemma seamless_digits_16: "digitsAt (1351079888211149 / 4503599627370496) (Suc (Suc (Suc (Suc (Suc (Suc (Suc (Suc (Suc (Suc (Suc (Suc (Suc (Suc (Suc (Suc (0))))))))))))))))) = None"
  by (simp add: digitsAt_def lowerDigits_def upperDigits_def roundTrips_def ilog10_seamless
      fl_quarter_to_half roundHalfEven_def Let_def)

lemma seamless_digits_17: "digitsAt (1351079888211149 / 4503599627370496) (Suc (Suc (Suc (Suc (Suc (Suc (Suc (Suc (Suc (Suc (Suc (Suc (Suc (Suc (Suc (Suc (Suc (0)))))))))))))))))) = Some (30000000000000004, 0)"
  by (simp add: digitsAt_def lowerDigits_def upperDigits_def roundTrips_def decimalError_def ilog10_seamless
      fl_quarter_to_half roundHalfEven_def Let_def)

lemma seamless_shortest:
  "shortestDigits (1351079888211149 / 4503599627370496) (Suc 0) = (30000000000000004, 0, 17)"
  using shortestDigits_next [OF seamless_digits_1] shortestDigits_next [OF seamless_digits_2] shortestDigits_next [OF seamless_digits_3] shortestDigits_next [OF seamless_digits_4] shortestDigits_next [OF seamless_digits_5] shortestDigits_next [OF seamless_digits_6] shortestDigits_next [OF seamless_digits_7] shortestDigits_next [OF seamless_digits_8] shortestDigits_next [OF seamless_digits_9] shortestDigits_next [OF seamless_digits_10] shortestDigits_next [OF seamless_digits_11] shortestDigits_next [OF seamless_digits_12] shortestDigits_next [OF seamless_digits_13] shortestDigits_next [OF seamless_digits_14] shortestDigits_next [OF seamless_digits_15] shortestDigits_next [OF seamless_digits_16]
    shortestDigits_found [OF seamless_digits_17]
  by simp

lemma seamless_decimal: "positiveToString (1351079888211149 / 4503599627370496) = ''0.30000000000000004''"
  by (simp add: positiveToString_def seamless_shortest digitsOfNat.simps digitChar_def)

lemma fl_fifth: "fl (1 / 5) \<noteq> Num (5404319552844595 / 18014398509481984)"
  by (subst fl_unfold [where t = "- 3"]) (simp_all add: roundHalfEven_def Let_def)

lemma ilog10_default: "ilog 10 (5404319552844595 / 18014398509481984) = - 1"
  by (rule ilog_unique) simp_all

lemma default_digits: "digitsAt (5404319552844595 / 18014398509481984) (Suc 0) = Some (3, 0)"
  by (simp add: digitsAt_def lowerDigits_def upperDigits_def roundTrips_def ilog10_default
      fl_fifth fl_three_tenths Let_def)

lemma default_decimal: "positiveToString (5404319552844595 / 18014398509481984) = ''0.3''"
  using shortestDigits_found [OF default_digits]
  by (simp add: positiveToString_def digitsOfNat.simps digitChar_def)

lemma seamless_example:
  "map_sum id audibleDuration (trimAndSetTempo exampleTempo (Num 10) (Num 1) (Num 4) True None)
     = Inr (Num (1351079888211149 / 4503599627370496))"
  by (simp add: trimAndSetTempo_Inr trimRightOrAssetDuration_def sub_def divide_def
      fl_two_fifths fl_tenth fl_difference)

lemma default_example:
  "map_sum id audibleDuration (trimAndSetTempo exampleTempo (Num 10) (Num 1) (Num 4) False None)
     = Inr (Num (5404319552844595 / 18014398509481984))"
  by (simp add: trimAndSetTempo_Inr trimRightOrAssetDuration_def sub_def divide_def
      fl_numeral fl_three_tenths)

text \<open>
  C1, as stated, fails: the two modes round differently. With \<^verbatim>\<open>trimLeft = 1\<close>,
  \<^verbatim>\<open>trimRight = 4\<close> and \<^verbatim>\<open>playbackRate = 10\<close> the seamless \<^verbatim>\<open>audibleDuration\<close> is
  \<^verbatim>\<open>0.4 - 0.1\<close>, the double \<^verbatim>\<open>0.30000000000000004\<close>, and the default one is \<^verbatim>\<open>3 / 10\<close>,
  the double \<^verbatim>\<open>0.3\<close>.
\<close>

theorem audibleDuration_modes_equal_counterexample:
  "ge (Num 1) (Num 0) \<and> ge (Num 4) (Num 1) \<and> gt (Num 10) (Num 0) \<and>
   map_sum id audibleDuration (trimAndSetTempo exampleTempo (Num 10) (Num 1) (Num 4) True None)
     = Inr (Num (1351079888211149 / 4503599627370496)) \<and>
   map_sum id audibleDuration (trimAndSetTempo exampleTempo (Num 10) (Num 1) (Num 4) False None)
     = Inr (Num (5404319552844595 / 18014398509481984)) \<and>
   map_sum id audibleDuration (trimAndSetTempo exampleTempo (Num 10) (Num 1) (Num 4) True None)
     \<noteq> map_sum id audibleDuration
         (trimAndSetTempo exampleTempo (Num 10) (Num 1) (Num 4) False None) \<and>
   numberToString (Num (1351079888211149 / 4503599627370496)) = ''0.30000000000000004'' \<and>
   numberToString (Num (5404319552844595 / 18014398509481984)) = ''0.3''"
  unfolding seamless_example default_example
  by (simp add: ge_def le_def gt_def seamless_decimal default_decimal)

theorem audibleDuration_up_to_rounding_witness:
  "map_sum id audibleDuration (trimAndSetTempo exampleTempo (Num 10) (Num 1) (Num 4) True None)
     = Inr (Num (1351079888211149 / 4503599627370496)) \<and>
   map_sum id audibleDuration (trimAndSetTempo exampleTempo (Num 10) (Num 1) (Num 4) False None)
     = Inr (Num (5404319552844595 / 18014398509481984)) \<and>
   (0::rat) \<le> 1 \<and> (1::rat) \<le> 4 \<and> (0::rat) < 10 \<and>
   \<bar>1351079888211149 / 4503599627370496 - (4 - 1) / 10\<bar>
     \<le> 2 powi (- 51) * ((1 + 4) / 10) + 2 powi (- 1073) * (1 + 1 / (10::rat)) \<and>
   \<bar>5404319552844595 / 18014398509481984 - (4 - 1) / 10\<bar>
     \<le> 2 powi (- 51) * ((1 + 4) / 10) + 2 powi (- 1073) * (1 + 1 / (10::rat))"
proof -
  have r: "(0::rat) \<le> 1" "(1::rat) \<le> 4" "(0::rat) < 10" by simp_all
  have n: "case None of None \<Rightarrow> True | Some dur \<Rightarrow> le (Num 4) dur" by simp
  from audibleDuration_up_to_rounding [OF seamless_example default_example r n]
  show ?thesis using seamless_example default_example by simp
qed

end
